theory Spec2Isabelle
  imports Complex_Main
begin

section \<open>Values, errors and diagnostics\<close>

text \<open>
  A float64 score is either a finite value, read as the real number it denotes, or NaN.
  NaN enters the scoring path in one place only: a correlation that is undefined. The
  scores of the base detectors are taken to be finite.
\<close>

datatype f64 = Finite real | NaN

fun f64_real :: "f64 \<Rightarrow> real option" where
  "f64_real (Finite v) = Some v"
| "f64_real NaN = None"

text \<open>
  Every \<open>raise\<close> of the scoring path is a value. The causes of a \<open>ValueError\<close> are kept
  apart, since the message is what tells a shape mismatch from the other failures.
\<close>

datatype value_error =
    FeatureMismatch nat nat
  | NotAMatrix
  | BinsNotPositive
  | RangeNotFinite
  | TooManyBins
  | NeighborsOutOfRange
  | NoFeatures
  | SubspaceBounds
  | EmptyReduction
  | CorrelationUndefined

datatype error = AssertionError | NotFittedError | AttributeError | ValueError value_error

datatype warning = MaxFeaturesWarning | RegionSizeWarning | NBinsWarning

type_synonym matrix = "real list list"

section \<open>The random source\<close>

text \<open>
  The \<open>RandomState\<close> handle is the sequence of raw draws fixed by its seed (the tape)
  and the number of draws consumed so far. Drawing reads the tape and advances.
\<close>

record rng =
  tape :: "nat \<Rightarrow> nat"
  pos :: nat

definition draw :: "rng \<Rightarrow> nat \<times> rng" where
  "draw r = (tape r (pos r), r\<lparr>pos := Suc (pos r)\<rparr>)"

section \<open>Base detectors\<close>

text \<open>
  A base detector is a black box with a fixed contract: fitted on a training matrix it has
  one training score per training row (\<open>decision_scores_\<close>), and its
  \<open>decision_function\<close> gives one score per query row.
\<close>

record detector =
  det_decision_scores :: "matrix \<Rightarrow> nat \<Rightarrow> real"
  det_decision_function :: "matrix \<Rightarrow> real list \<Rightarrow> real"

section \<open>The ensemble object\<close>

text \<open>
  The attributes of \<open>LSCP\<close>. The attributes that exist only after \<open>fit\<close> are options
  (an Isabelle name cannot end in an underscore: the trailing underscore of a fitted
  attribute is written as a prime).
  The diagnostics emitted through \<open>warnings.warn\<close> are kept as a log. The contamination
  threshold of the base class is read by no scoring path and is left out.
\<close>

record lscp =
  estimator_list :: "detector list"
  n_clf :: nat
  local_region_size :: int
  local_region_min :: int
  local_region_max :: int
  local_max_features :: real
  local_min_features :: real
  local_region_iterations :: nat
  local_region_threshold :: nat
  n_bins :: int
  n_selected :: nat
  random_state :: rng
  n_features' :: "nat option"
  X_train_norm' :: "matrix option"
  train_scores' :: "matrix option"
  training_pseudo_label' :: "real list option"
  decision_scores' :: "f64 list option"
  warnings :: "warning list"

definition warn :: "warning \<Rightarrow> lscp \<Rightarrow> lscp" where
  "warn w s = s\<lparr>warnings := warnings s @ [w]\<rparr>"

text \<open>\<open>int(x)\<close> on a float truncates towards zero.\<close>

definition python_int :: "real \<Rightarrow> int" where
  "python_int x = (if 0 \<le> x then \<lfloor>x\<rfloor> else \<lceil>x\<rceil>)"

text \<open>
  \<open>LSCP.__init__\<close>: the attributes are set, the assertion on the number of estimators
  aborts the construction, and a \<open>local_max_features\<close> above 1.0 is reduced with a warning.
\<close>

definition LSCP_init :: "detector list \<Rightarrow> int \<Rightarrow> real \<Rightarrow> int \<Rightarrow> rng \<Rightarrow> error + lscp" where
  "LSCP_init estimators region_size max_features bins rs =
     (let s = \<lparr> estimator_list = estimators,
                 n_clf = length estimators,
                 local_region_size = region_size,
                 local_region_min = 30,
                 local_region_max = 200,
                 local_max_features = max_features,
                 local_min_features = 1 / 2,
                 local_region_iterations = 20,
                 local_region_threshold = nat (python_int (real 20 / 2)),
                 n_bins = bins,
                 n_selected = 1,
                 random_state = rs,
                 n_features' = None,
                 X_train_norm' = None,
                 train_scores' = None,
                 training_pseudo_label' = None,
                 decision_scores' = None,
                 warnings = [] \<rparr>
      in if \<not> 1 < length estimators then Inl AssertionError
         else if 1 < local_max_features s
           then Inr (warn MaxFeaturesWarning s\<lparr>local_max_features := 1\<rparr>)
           else Inr s)"

section \<open>The numeric library\<close>

text \<open>
  Four things that the scoring path calls are fixed neither by the sources nor by the
  real numbers, and are parameters of the model:
  \<^item> the bin edges of \<open>numpy.histogram\<close>, which are computed in float64 and need not be
    the exact equally spaced points: on a narrow range neighbouring edges round to the
    same number;
  \<^item> whether \<open>numpy.histogram\<close> raises on edges that are not strictly increasing
    (``Too many bins for data range''), as the later versions of numpy do;
  \<^item> \<open>argmaxn\<close> of \<open>pyod.utils.utility\<close>, which is not among the sources;
  \<^item> whether \<open>pearsonr\<close>, not among the sources either, raises on a sample of fewer
    than two points or gives NaN.
\<close>

record library =
  lib_bin_edges :: "real list \<Rightarrow> nat \<Rightarrow> real list"
  checks_bin_width :: bool
  lib_argmaxn :: "nat list \<Rightarrow> nat \<Rightarrow> nat list"
  short_sample_raises :: bool

section \<open>The competency selector\<close>

text \<open>
  \<open>numpy.histogram(a, bins)\<close> with an integer bin count: a bin count below one raises, a
  range that is not finite raises, and so do, where the library checks them, bin edges
  that are not strictly increasing (too many bins for the range of the data). Every bin is
  half open except the last, which is closed.
\<close>

definition in_half_open_bin :: "real list \<Rightarrow> nat \<Rightarrow> nat \<Rightarrow> real \<Rightarrow> bool" where
  "in_half_open_bin edges nb i v =
     (edges ! i \<le> v \<and> (v < edges ! Suc i \<or> (Suc i = nb \<and> v \<le> edges ! Suc i)))"

definition histogram :: "library \<Rightarrow> f64 list \<Rightarrow> int \<Rightarrow> error + (nat list \<times> real list)" where
  "histogram L a bins =
     (if bins < 1 then Inl (ValueError BinsNotPositive)
      else case those (map f64_real a) of
        None \<Rightarrow> Inl (ValueError RangeNotFinite)
      | Some vs \<Rightarrow>
          (let nb = nat bins;
               edges = lib_bin_edges L vs nb;
               hist = map (\<lambda>i. length (filter (in_half_open_bin edges nb i) vs)) [0..<nb]
           in if checks_bin_width L \<and> \<not> sorted_wrt (<) edges
              then Inl (ValueError TooManyBins)
              else Inr (hist, edges)))"

text \<open>
  The bin edges in exact arithmetic: the range is \<open>[min a, max a]\<close> (\<open>[0, 1]\<close> for an
  empty array, widened by one half on each side when both ends coincide) and the edges are
  equally spaced. The float64 edges are these where the arithmetic is exact.
\<close>

definition bin_edges_of :: "real \<Rightarrow> real \<Rightarrow> nat \<Rightarrow> real list" where
  "bin_edges_of first_edge last_edge nb =
     map (\<lambda>i. first_edge + real i * (last_edge - first_edge) / real nb) [0..<Suc nb]"

definition histogram_range :: "real list \<Rightarrow> real \<times> real" where
  "histogram_range vs =
     (let (first_edge, last_edge) = (if vs = [] then (0, 1) else (Min (set vs), Max (set vs)))
      in if first_edge = last_edge then (first_edge - 1 / 2, last_edge + 1 / 2)
         else (first_edge, last_edge))"

definition exact_bin_edges :: "real list \<Rightarrow> nat \<Rightarrow> real list" where
  "exact_bin_edges vs nb = bin_edges_of (fst (histogram_range vs)) (snd (histogram_range vs)) nb"

text \<open>
  Modelled from the spec: \<open>argmaxn\<close> of \<open>pyod.utils.utility\<close> is not among the sources.
  The spec describes it as a stable top-n by count rule that returns the first bin
  reaching a count in scan order on ties: the indices in descending order of their value,
  equal values in index order, cut after n.
\<close>

definition argmaxn :: "nat list \<Rightarrow> nat \<Rightarrow> nat list" where
  "argmaxn value_list n =
     take n (sort_key (\<lambda>i. - int (value_list ! i)) [0..<length value_list])"

text \<open>
  The library of the spec's words in exact arithmetic, for either behaviour of
  \<open>pearsonr\<close> on a short sample.
\<close>

definition reference_library :: "bool \<Rightarrow> library" where
  "reference_library raises =
     \<lparr> lib_bin_edges = exact_bin_edges, checks_bin_width = True, lib_argmaxn = argmaxn,
       short_sample_raises = raises \<rparr>"

text \<open>
  A library in which the edges are rounded: every edge but the last is rounded down to a
  whole number and the last one is rounded up, and edges that have become equal make the
  histogram raise. It stands for what float64 does to the edges on a narrow range.
\<close>

definition rounded_bin_edges :: "real list \<Rightarrow> nat \<Rightarrow> real list" where
  "rounded_bin_edges vs nb =
     map (\<lambda>i. if i < nb then of_int \<lfloor>exact_bin_edges vs nb ! i\<rfloor>
               else of_int \<lceil>exact_bin_edges vs nb ! i\<rceil>) [0..<Suc nb]"

definition rounding_library :: library where
  "rounding_library =
     \<lparr> lib_bin_edges = rounded_bin_edges, checks_bin_width = True, lib_argmaxn = argmaxn,
       short_sample_raises = True \<rparr>"

text \<open>
  What the properties below need of a library, and what holds of float64 edges as well:
  there is one edge more than there are bins, the edges do not decrease, the first edge is
  the minimum of the data or below and the last edge the maximum or above; and with one
  bin to select, \<open>argmaxn\<close> gives at least one bin and only bins of the highest count
  (the first of them, or all of them).
\<close>

definition library_contract :: "library \<Rightarrow> bool" where
  "library_contract L =
     ((\<forall>vs nb. 0 < nb \<longrightarrow>
         length (lib_bin_edges L vs nb) = Suc nb \<and> sorted (lib_bin_edges L vs nb) \<and>
         (\<forall>v \<in> set vs. lib_bin_edges L vs nb ! 0 \<le> v \<and> v \<le> lib_bin_edges L vs nb ! nb)) \<and>
      (\<forall>hist. hist \<noteq> [] \<longrightarrow>
         lib_argmaxn L hist 1 \<noteq> [] \<and>
         (\<forall>b \<in> set (lib_argmaxn L hist 1).
            b < length hist \<and> (\<forall>i<length hist. hist ! i \<le> hist ! b))))"

text \<open>The comparison of a score with a closed bin; a comparison with NaN is false.\<close>

fun in_closed_bin :: "real \<Rightarrow> real \<Rightarrow> f64 \<Rightarrow> bool" where
  "in_closed_bin lo hi (Finite v) = (lo \<le> v \<and> v \<le> hi)"
| "in_closed_bin lo hi NaN = False"

definition np_where :: "('a \<Rightarrow> bool) \<Rightarrow> 'a list \<Rightarrow> nat list" where
  "np_where P xs = filter (\<lambda>i. P (xs ! i)) [0..<length xs]"

text \<open>
  \<open>LSCP._get_competent_detectors\<close>. The clamp of \<open>n_bins\<close> is an assignment to the
  object, so the state is returned with the result, also when the histogram raises.
\<close>

definition clamp_n_bins :: "lscp \<Rightarrow> lscp" where
  "clamp_n_bins s =
     (if int (n_clf s) < n_bins s then (warn NBinsWarning s)\<lparr>n_bins := int (n_clf s)\<rparr> else s)"

definition get_competent_detectors ::
  "library \<Rightarrow> lscp \<Rightarrow> f64 list \<Rightarrow> (error + nat list) \<times> lscp" where
  "get_competent_detectors L s scores =
     (let s1 = clamp_n_bins s
      in case histogram L scores (n_bins s1) of
           Inl e \<Rightarrow> (Inl e, s1)
         | Inr (hist, bin_edges) \<Rightarrow>
             (let max_bins = lib_argmaxn L hist (n_selected s1);
                  candidates = concat (map (\<lambda>max_bin.
                     np_where (in_closed_bin (bin_edges ! max_bin) (bin_edges ! Suc max_bin)) scores)
                     max_bins)
              in (Inr candidates, s1)))"

section \<open>The local region estimator\<close>

text \<open>
  Modelled from the spec: \<open>generate_bagging_indices\<close> of \<open>pyod.utils.utility\<close> is not
  among the sources. The spec gives the sampler as
  \<open>sample(total_features, min_count, max_count)\<close>, a set of distinct feature indices of a
  size between \<open>min_count\<close> and \<open>max_count\<close>, drawn without replacement from an
  externally seeded random source. The size is one draw, each index is one more draw from
  the features not taken yet. Where no such set exists (crossed or negative bounds, more
  than the feature count) the sampler raises.
\<close>

fun sample_without_replacement :: "rng \<Rightarrow> nat list \<Rightarrow> nat \<Rightarrow> nat list \<times> rng" where
  "sample_without_replacement r pool 0 = ([], r)"
| "sample_without_replacement r pool (Suc c) =
     (if pool = [] then ([], r)
      else (let (v, r1) = draw r;
                x = pool ! (v mod length pool);
                (rest, r2) = sample_without_replacement r1 (remove1 x pool) c
            in (x # rest, r2)))"

text \<open>
  Modelled from the spec: \<open>generate_bagging_indices\<close> with
  \<open>bootstrap_features=False\<close>, the sampler \<open>sample(total_features, min_count,
  max_count)\<close> of the spec.
\<close>

definition generate_bagging_indices ::
  "rng \<Rightarrow> nat \<Rightarrow> int \<Rightarrow> int \<Rightarrow> (error + nat list) \<times> rng" where
  "generate_bagging_indices r n_features min_features max_features =
     (if min_features < 0 \<or> max_features < min_features \<or> int n_features < max_features
      then (Inl (ValueError SubspaceBounds), r)
      else (let (v, r1) = draw r;
                random_n_features =
                  nat min_features + v mod (nat (max_features - min_features) + 1);
                (features, r2) = sample_without_replacement r1 [0..<n_features] random_n_features
            in (Inr features, r2)))"

text \<open>\<open>X.shape[1]\<close> and the column selection \<open>X[:, features]\<close>.\<close>

definition shape1 :: "matrix \<Rightarrow> nat" where
  "shape1 X = (case X of [] \<Rightarrow> 0 | row # _ \<Rightarrow> length row)"

definition select_features :: "matrix \<Rightarrow> nat list \<Rightarrow> matrix" where
  "select_features X features = map (\<lambda>row. map (\<lambda>f. row ! f) features) X"

text \<open>
  The spatial index: \<open>KDTree(data)\<close> refuses data without a feature, and
  \<open>tree.query(X, k)\<close> gives, for each query row, the indices of the k nearest training rows
  in order of Euclidean distance (compared through its square), equal distances in index
  order. The query raises for a k above the number of training rows and for a negative k;
  for \<open>k = 0\<close> it gives no neighbour.
\<close>

definition sqdist :: "real list \<Rightarrow> real list \<Rightarrow> real" where
  "sqdist p q = sum_list (map2 (\<lambda>a b. (a - b) * (a - b)) p q)"

definition KDTree :: "matrix \<Rightarrow> error + matrix" where
  "KDTree data = (if data = [] \<or> shape1 data = 0 then Inl (ValueError NoFeatures) else Inr data)"

definition nearest :: "matrix \<Rightarrow> nat \<Rightarrow> real list \<Rightarrow> nat list" where
  "nearest tree k q = take k (sort_key (\<lambda>i. sqdist (tree ! i) q) [0..<length tree])"

definition tree_query :: "matrix \<Rightarrow> matrix \<Rightarrow> int \<Rightarrow> error + nat list list" where
  "tree_query tree X k =
     (if k < 0 \<or> int (length tree) < k then Inl (ValueError NeighborsOutOfRange)
      else Inr (map (nearest tree (nat k)) X))"

text \<open>
  One iteration of \<open>LSCP._get_local_region\<close>: the subspace is sampled with the bounds
  \<open>int(d * local_min_features)\<close> and \<open>int(d * local_max_features)\<close>, and the
  neighbours of every query row are found in it. The loop reads the object and changes
  nothing of it but the random state, which is threaded through.
\<close>

definition sample_subspace :: "lscp \<Rightarrow> matrix \<Rightarrow> rng \<Rightarrow> (error + nat list) \<times> rng" where
  "sample_subspace s Xtr r =
     generate_bagging_indices r (shape1 Xtr)
       (python_int (real (shape1 Xtr) * local_min_features s))
       (python_int (real (shape1 Xtr) * local_max_features s))"

definition neighbors_in_subspace ::
  "lscp \<Rightarrow> matrix \<Rightarrow> matrix \<Rightarrow> nat list \<Rightarrow> error + nat list list" where
  "neighbors_in_subspace s Xtr X features =
     (case KDTree (select_features Xtr features) of
        Inl e \<Rightarrow> Inl e
      | Inr tree \<Rightarrow> tree_query tree (select_features X features) (local_region_size s))"

fun vote_iterations ::
  "nat \<Rightarrow> lscp \<Rightarrow> rng \<Rightarrow> matrix \<Rightarrow> nat list list \<Rightarrow> (error + nat list list) \<times> rng" where
  "vote_iterations 0 s r X local_region_list = (Inr local_region_list, r)"
| "vote_iterations (Suc it) s r X local_region_list =
     (case X_train_norm' s of
        None \<Rightarrow> (Inl AttributeError, r)
      | Some Xtr \<Rightarrow>
          (case sample_subspace s Xtr r of
             (Inl e, r1) \<Rightarrow> (Inl e, r1)
           | (Inr features, r1) \<Rightarrow>
               (case neighbors_in_subspace s Xtr X features of
                  Inl e \<Rightarrow> (Inl e, r1)
                | Inr ind_arr \<Rightarrow>
                    vote_iterations it s r1 X (map2 (@) local_region_list ind_arr))))"

text \<open>
  \<open>collections.Counter(votes).items()\<close>: every distinct item with its number of
  occurrences, in the order of first occurrence.
\<close>

fun counter_add :: "'a \<Rightarrow> ('a \<times> nat) list \<Rightarrow> ('a \<times> nat) list" where
  "counter_add x [] = [(x, 1)]"
| "counter_add x ((y, c) # ys) = (if x = y then (y, Suc c) # ys else (y, c) # counter_add x ys)"

definition Counter :: "'a list \<Rightarrow> ('a \<times> nat) list" where
  "Counter xs = fold counter_add xs []"

definition threshold_votes :: "nat \<Rightarrow> nat list \<Rightarrow> nat list" where
  "threshold_votes threshold votes =
     map fst (filter (\<lambda>(item, count). threshold < count) (Counter votes))"

text \<open>
  \<open>LSCP._get_local_region\<close>: the votes of all iterations are accumulated per query row,
  then the items counted more often than \<open>local_region_threshold\<close> are kept.
\<close>

definition get_local_region :: "lscp \<Rightarrow> matrix \<Rightarrow> (error + nat list list) \<times> lscp" where
  "get_local_region s X =
     (case vote_iterations (local_region_iterations s) s (random_state s) X
             (replicate (length X) []) of
        (Inl e, r) \<Rightarrow> (Inl e, s\<lparr>random_state := r\<rparr>)
      | (Inr local_region_list, r) \<Rightarrow>
          (Inr (map (threshold_votes (local_region_threshold s)) local_region_list),
           s\<lparr>random_state := r\<rparr>))"

section \<open>The scoring orchestrator\<close>

text \<open>
  Modelled from the spec: \<open>standardizer\<close> of \<open>pyod.utils.utility\<close> is not among the
  sources. The spec gives it as \<open>(x - mean) / stddev\<close> per detector column with the
  statistics of the training matrix applied to both matrices, zero-guarded: a column
  without spread is divided by one.
\<close>

definition mean :: "real list \<Rightarrow> real" where
  "mean xs = sum_list xs / real (length xs)"

definition stddev :: "real list \<Rightarrow> real" where
  "stddev xs = sqrt (mean (map (\<lambda>v. (v - mean xs) * (v - mean xs)) xs))"

definition column :: "matrix \<Rightarrow> nat \<Rightarrow> real list" where
  "column M k = map (\<lambda>row. row ! k) M"

definition standardize_row :: "matrix \<Rightarrow> real list \<Rightarrow> real list" where
  "standardize_row train row =
     map (\<lambda>k. (row ! k - mean (column train k)) /
               (if stddev (column train k) = 0 then 1 else stddev (column train k)))
         [0..<shape1 train]"

text \<open>
  Modelled from the spec: \<open>standardizer(X_train, X_test)\<close>, both matrices rescaled with
  the statistics of the first.
\<close>

definition standardizer :: "matrix \<Rightarrow> matrix \<Rightarrow> matrix \<times> matrix" where
  "standardizer X_train X_test =
     (map (standardize_row X_train) X_train, map (standardize_row X_train) X_test)"

text \<open>
  Modelled from the spec: \<open>pearsonr\<close> of \<open>pyod.utils.stat_models\<close> is not among the
  sources. The spec gives it as the plain Pearson correlation coefficient, of which only the
  coefficient is consumed, and as undefined on fewer than two points: there the helper
  raises or gives NaN, as the library has it. The quotient is NaN when one of the samples
  has no spread.
\<close>

definition pearsonr :: "library \<Rightarrow> real list \<Rightarrow> real list \<Rightarrow> error + f64" where
  "pearsonr L x y =
     (let xm = map (\<lambda>v. v - mean x) x;
          ym = map (\<lambda>v. v - mean y) y;
          r_num = sum_list (map2 (*) xm ym);
          r_den = sqrt (sum_list (map (\<lambda>v. v * v) xm) * sum_list (map (\<lambda>v. v * v) ym))
      in if length x < 2
         then (if short_sample_raises L then Inl (ValueError CorrelationUndefined) else Inr NaN)
         else if r_den = 0 then Inr NaN else Inr (Finite (r_num / r_den)))"

text \<open>\<open>numpy.mean\<close> of a selection of scores: NaN when nothing is selected.\<close>

definition np_mean :: "real list \<Rightarrow> f64" where
  "np_mean xs = (if xs = [] then NaN else Finite (sum_list xs / real (length xs)))"

text \<open>
  The loop over the query rows in \<open>LSCP._get_decision_scores\<close>. The pseudo target and
  the standardized matrices are fixed before the loop; the object changes only through
  the call of the selector. The correlations of a query row are computed detector by
  detector, and the first that raises ends the call.
\<close>

fun collect :: "(error + 'a) list \<Rightarrow> error + 'a list" where
  "collect [] = Inr []"
| "collect (Inl e # rs) = Inl e"
| "collect (Inr v # rs) = (case collect rs of Inl e \<Rightarrow> Inl e | Inr vs \<Rightarrow> Inr (v # vs))"

definition local_correlations ::
  "library \<Rightarrow> lscp \<Rightarrow> real list \<Rightarrow> matrix \<Rightarrow> nat list \<Rightarrow> error + f64 list" where
  "local_correlations L s pseudo_label train_scores_norm test_local_region =
     (let local_pseudo_ground_truth = map (\<lambda>i. pseudo_label ! i) test_local_region;
          local_train_scores = map (\<lambda>i. train_scores_norm ! i) test_local_region
      in collect (map (\<lambda>d. pearsonr L local_pseudo_ground_truth (column local_train_scores d))
                    [0..<n_clf s]))"

fun score_points ::
  "library \<Rightarrow> lscp \<Rightarrow> real list \<Rightarrow> matrix \<Rightarrow> (real list \<times> nat list) list \<Rightarrow>
     (error + f64 list) \<times> lscp" where
  "score_points L s pseudo_label train_scores_norm [] = (Inr [], s)"
| "score_points L s pseudo_label train_scores_norm ((test_row, test_local_region) # rest) =
     (case local_correlations L s pseudo_label train_scores_norm test_local_region of
        Inl e \<Rightarrow> (Inl e, s)
      | Inr pearson_corr_scores \<Rightarrow>
          (case get_competent_detectors L s pearson_corr_scores of
             (Inl e, s1) \<Rightarrow> (Inl e, s1)
           | (Inr candidates, s1) \<Rightarrow>
               (case score_points L s1 pseudo_label train_scores_norm rest of
                  (Inl e, s2) \<Rightarrow> (Inl e, s2)
                | (Inr pred, s2) \<Rightarrow>
                    (Inr (np_mean (map (\<lambda>c. test_row ! c) candidates) # pred), s2))))"

text \<open>\<open>LSCP._get_decision_scores\<close>.\<close>

definition region_size_warning :: "lscp \<Rightarrow> lscp" where
  "region_size_warning s =
     (if local_region_size s < local_region_min s \<or> local_region_max s < local_region_size s
      then warn RegionSizeWarning s else s)"

definition get_decision_scores ::
  "library \<Rightarrow> lscp \<Rightarrow> matrix \<Rightarrow> (error + f64 list) \<times> lscp" where
  "get_decision_scores L s0 X =
     (let s = region_size_warning s0
      in case get_local_region s X of
           (Inl e, s1) \<Rightarrow> (Inl e, s1)
         | (Inr test_local_regions, s1) \<Rightarrow>
             (case (X_train_norm' s1, train_scores' s1) of
                (Some Xtr, Some tr_scores) \<Rightarrow>
                  (let test_scores =
                         map (\<lambda>row. map (\<lambda>e. det_decision_function e Xtr row) (estimator_list s1)) X;
                       (train_scores_norm, test_scores_norm) = standardizer tr_scores test_scores
                   in if [] \<in> set train_scores_norm then (Inl (ValueError EmptyReduction), s1)
                      else (let pseudo_label = map (\<lambda>row. Max (set row)) train_scores_norm;
                                s2 = s1\<lparr>training_pseudo_label' := Some pseudo_label\<rparr>
                            in score_points L s2 pseudo_label train_scores_norm
                                 (zip test_scores_norm test_local_regions)))
              | _ \<Rightarrow> (Inl AttributeError, s1)))"

text \<open>
  \<open>check_array\<close>: a two-dimensional array with at least one row and one column.
  \<open>check_is_fitted\<close>: the four attributes exist.
\<close>

definition check_array :: "matrix \<Rightarrow> error + matrix" where
  "check_array X =
     (if X = [] \<or> shape1 X = 0 \<or> (\<exists>row \<in> set X. length row \<noteq> shape1 X)
      then Inl (ValueError NotAMatrix) else Inr X)"

definition is_fitted :: "lscp \<Rightarrow> bool" where
  "is_fitted s =
     (training_pseudo_label' s \<noteq> None \<and> train_scores' s \<noteq> None \<and>
      X_train_norm' s \<noteq> None \<and> n_features' s \<noteq> None)"

text \<open>\<open>LSCP.decision_function\<close>.\<close>

definition decision_function ::
  "library \<Rightarrow> lscp \<Rightarrow> matrix \<Rightarrow> (error + f64 list) \<times> lscp" where
  "decision_function L s X0 =
     (if \<not> is_fitted s then (Inl NotFittedError, s)
      else case check_array X0 of
             Inl e \<Rightarrow> (Inl e, s)
           | Inr X \<Rightarrow>
               (if n_features' s \<noteq> Some (shape1 X)
                then (Inl (ValueError (FeatureMismatch (the (n_features' s)) (shape1 X))), s)
                else get_decision_scores L s X))"

text \<open>
  \<open>LSCP.fit\<close>: every base detector is fitted on the training matrix and its training
  scores become a column of the train score matrix; the object then scores its own training
  matrix. \<open>check_random_state\<close> gives back the handle it is given. The threshold and the
  labels that the base class derives from the scores afterwards are not part of the model.

  In an object that \<open>fit\<close> has left, the train score matrix has a row for every
  training row and a column for every detector, and a query that \<open>decision_function\<close>
  lets through has the columns of the training matrix: the reads by index of the scoring
  call are in range there. For an object assembled otherwise the model has no
  \<open>IndexError\<close>.
\<close>

definition fit :: "library \<Rightarrow> lscp \<Rightarrow> matrix \<Rightarrow> (error + unit) \<times> lscp" where
  "fit L s X0 =
     (case check_array X0 of
        Inl e \<Rightarrow> (Inl e, s)
      | Inr X \<Rightarrow>
          (let tr_scores =
                 map (\<lambda>i. map (\<lambda>e. det_decision_scores e X i) (estimator_list s)) [0..<length X];
               s1 = s\<lparr>n_features' := Some (shape1 X), X_train_norm' := Some X,
                      train_scores' := Some tr_scores\<rparr>
           in case get_decision_scores L s1 X of
                (Inl e, s2) \<Rightarrow> (Inl e, s2)
              | (Inr scores, s2) \<Rightarrow> (Inr (), s2\<lparr>decision_scores' := Some scores\<rparr>)))"

section \<open>What the constructor fixes\<close>

text \<open>
  The attributes that \<open>__init__\<close> sets to constants or checks, and that no method
  assigns afterwards.
\<close>

definition constructed :: "lscp \<Rightarrow> bool" where
  "constructed s =
     (n_clf s = length (estimator_list s) \<and> 1 < n_clf s \<and> n_selected s = 1 \<and>
      local_region_iterations s = 20 \<and> local_region_threshold s = 10 \<and>
      local_min_features s = 1 / 2 \<and> local_max_features s \<le> 1 \<and>
      local_region_min s = 30 \<and> local_region_max s = 200)"

text \<open>
  Two objects have the same configuration when they agree on everything a scoring call
  reads, the bin count being read after its clamp. The random state, the log of
  diagnostics and the stored pseudo target are not part of it.
\<close>

definition same_configuration :: "lscp \<Rightarrow> lscp \<Rightarrow> bool" where
  "same_configuration s t =
     (estimator_list s = estimator_list t \<and> n_clf s = n_clf t \<and>
      local_region_size s = local_region_size t \<and>
      local_region_min s = local_region_min t \<and> local_region_max s = local_region_max t \<and>
      local_max_features s = local_max_features t \<and>
      local_min_features s = local_min_features t \<and>
      local_region_iterations s = local_region_iterations t \<and>
      local_region_threshold s = local_region_threshold t \<and>
      n_selected s = n_selected t \<and> n_features' s = n_features' t \<and>
      X_train_norm' s = X_train_norm' t \<and> train_scores' s = train_scores' t \<and>
      n_bins (clamp_n_bins s) = n_bins (clamp_n_bins t))"

section \<open>A small ensemble\<close>

text \<open>
  Two detectors over four training points in two dimensions, with a local region size of
  2 and the default of 10 bins. The tape makes the sampler take feature 0 alone in every
  iteration of \<open>fit\<close>, and feature 1 and feature 0 in turn in the scoring call after it.
\<close>

definition ex_tape :: "nat \<Rightarrow> nat" where
  "ex_tape i = (if odd i \<and> 40 \<le> i \<and> i < 80 then ((i - 39) div 2) mod 2 else 0)"

definition det_A :: detector where
  "det_A = \<lparr> det_decision_scores = (\<lambda>X i. if even i then 1 else - 1),
             det_decision_function = (\<lambda>Xtr row. row ! 0) \<rparr>"

definition det_B :: detector where
  "det_B = \<lparr> det_decision_scores = (\<lambda>X i. if even i then 2 else - 2),
             det_decision_function = (\<lambda>Xtr row. row ! 1) \<rparr>"

definition ex_train :: matrix where
  "ex_train = [[0, 10], [1, 11], [10, 0], [11, 1]]"

definition ex_model :: lscp where
  "ex_model = projr (LSCP_init [det_A, det_B] 2 1 10 \<lparr>tape = ex_tape, pos = 0\<rparr>)"

text \<open>An object of five detectors and four bins, for the selector alone.\<close>

definition ex_five :: lscp where
  "ex_five = projr (LSCP_init [det_A, det_B, det_A, det_B, det_A] 2 1 4
                      \<lparr>tape = ex_tape, pos = 0\<rparr>)"

text \<open>
  The object as \<open>fit\<close> finds it after the base detectors are fitted, as \<open>fit\<close> leaves
  it, and as a scoring call on the query \<open>[[0, 10]]\<close> leaves it after that.
\<close>

definition ex_prefit :: lscp where
  "ex_prefit = ex_model\<lparr>n_features' := Some 2, X_train_norm' := Some ex_train,
      train_scores' := Some [[1, 2], [- 1, - 2], [1, 2], [- 1, - 2]]\<rparr>"

definition ex_fitted :: lscp where
  "ex_fitted = ex_prefit\<lparr>n_bins := 2, random_state := \<lparr>tape = ex_tape, pos = 40\<rparr>,
      training_pseudo_label' := Some [1, - 1, 1, - 1],
      decision_scores' := Some [Finite (5 / 2), Finite (13 / 4), Finite 5, Finite (23 / 4)],
      warnings := [RegionSizeWarning, NBinsWarning]\<rparr>"

definition ex_scored :: lscp where
  "ex_scored = ex_fitted\<lparr>random_state := \<lparr>tape = ex_tape, pos = 80\<rparr>,
      warnings := [RegionSizeWarning, NBinsWarning, RegionSizeWarning]\<rparr>"

section \<open>The competency selector: properties\<close>

lemma those_map_Finite: "those (map (f64_real \<circ> Finite) rs) = Some rs"
  by (induction rs) auto

lemma those_f64_real_Some:
  "those (map f64_real a) = Some vs \<Longrightarrow> a = map Finite vs"
proof (induction a arbitrary: vs)
  case Nil
  then show ?case by simp
next
  case (Cons x a)
  then show ?case by (cases x) (auto split: option.splits)
qed

lemma histogram_range_cases:
  "histogram_range vs =
     (if vs = [] then (0, 1)
      else if Min (set vs) = Max (set vs) then (Min (set vs) - 1 / 2, Max (set vs) + 1 / 2)
      else (Min (set vs), Max (set vs)))"
  by (simp add: histogram_range_def)

lemma histogram_range_bounds:
  assumes "histogram_range vs = (lo, hi)"
  shows "lo < hi" and "\<And>v. v \<in> set vs \<Longrightarrow> lo \<le> v \<and> v \<le> hi"
proof -
  show "lo < hi"
  proof (cases "vs = []")
    case True
    with assms show ?thesis by (simp add: histogram_range_cases)
  next
    case False
    then have le: "Min (set vs) \<le> Max (set vs)" by simp
    show ?thesis
    proof (cases "Min (set vs) = Max (set vs)")
      case True
      with assms False show ?thesis by (simp add: histogram_range_cases)
    next
      case ne: False
      with le have "Min (set vs) < Max (set vs)" by simp
      with assms False ne show ?thesis by (simp add: histogram_range_cases)
    qed
  qed
  fix v assume v: "v \<in> set vs"
  then have ne: "vs \<noteq> []" by auto
  from v have mm: "Min (set vs) \<le> v" "v \<le> Max (set vs)" by simp_all
  from assms ne have "(lo = Min (set vs) - 1 / 2 \<and> hi = Max (set vs) + 1 / 2) \<or>
      (lo = Min (set vs) \<and> hi = Max (set vs))"
    unfolding histogram_range_cases by (cases "Min (set vs) = Max (set vs)") auto
  with mm show "lo \<le> v \<and> v \<le> hi" by linarith
qed

lemma bin_edges_nth:
  "i \<le> nb \<Longrightarrow> bin_edges_of lo hi nb ! i = lo + real i * (hi - lo) / real nb"
  unfolding bin_edges_of_def
  by (metis (no_types, lifting) add_0 less_Suc_eq_le nth_map_upt diff_zero)

lemma bin_edges_first: "bin_edges_of lo hi nb ! 0 = lo"
  by (simp add: bin_edges_nth)

lemma bin_edges_last: "0 < nb \<Longrightarrow> bin_edges_of lo hi nb ! nb = hi"
  by (simp add: bin_edges_nth)

lemma bin_edges_increasing:
  assumes "lo < hi" and "0 < nb"
  shows "sorted_wrt (<) (bin_edges_of lo hi nb)"
proof -
  have "bin_edges_of lo hi nb ! i < bin_edges_of lo hi nb ! j"
    if "i < j" "j < length (bin_edges_of lo hi nb)" for i j
  proof -
    from that have ij: "i \<le> nb" "j \<le> nb" by (simp_all add: bin_edges_of_def)
    have "real i * (hi - lo) / real nb < real j * (hi - lo) / real nb"
      using assms that(1) by (simp add: divide_strict_right_mono)
    then show ?thesis by (simp add: bin_edges_nth ij)
  qed
  then show ?thesis by (simp add: sorted_wrt_iff_nth_less)
qed

lemma exact_bin_edges_length: "length (exact_bin_edges vs nb) = Suc nb"
  by (simp add: exact_bin_edges_def bin_edges_of_def)

lemma exact_bin_edges_cover:
  assumes "v \<in> set vs" and "0 < nb"
  shows "exact_bin_edges vs nb ! 0 \<le> v \<and> v \<le> exact_bin_edges vs nb ! nb"
proof -
  obtain lo hi where r: "histogram_range vs = (lo, hi)" by (cases "histogram_range vs")
  from histogram_range_bounds(2) [OF r assms(1)] assms(2) r
  show ?thesis by (simp add: exact_bin_edges_def bin_edges_first bin_edges_last)
qed

lemma exact_bin_edges_increasing: "0 < nb \<Longrightarrow> sorted_wrt (<) (exact_bin_edges vs nb)"
proof -
  assume nb: "0 < nb"
  obtain lo hi where r: "histogram_range vs = (lo, hi)" by (cases "histogram_range vs")
  from histogram_range_bounds(1) [OF r] nb r show ?thesis
    by (simp add: exact_bin_edges_def bin_edges_increasing)
qed

text \<open>Every value between the outer edges lies in one of the bins that are counted.\<close>

lemma some_bin_contains:
  assumes nb: "0 < nb" and lo: "E ! 0 \<le> v" and hi: "v \<le> E ! nb"
  shows "\<exists>i<nb. in_half_open_bin E nb i v"
proof -
  let ?S = "{i. i < nb \<and> E ! i \<le> v}"
  have fin: "finite ?S" by simp
  have "0 \<in> ?S" using nb lo by simp
  then have ne: "?S \<noteq> {}" by blast
  define i where "i = Max ?S"
  have iS: "i \<in> ?S" unfolding i_def using Max_in [OF fin ne] .
  then have ilt: "i < nb" and ile: "E ! i \<le> v" by simp_all
  show ?thesis
  proof (cases "Suc i = nb")
    case True
    with hi ile ilt show ?thesis
      unfolding in_half_open_bin_def by auto
  next
    case False
    with ilt have lt: "Suc i < nb" by simp
    have "\<not> E ! Suc i \<le> v"
    proof
      assume "E ! Suc i \<le> v"
      with lt have "Suc i \<in> ?S" by simp
      then have "Suc i \<le> i" unfolding i_def using Max_ge [OF fin] by blast
      then show False by simp
    qed
    with ile ilt show ?thesis unfolding in_half_open_bin_def by auto
  qed
qed

text \<open>With one bin to select, the \<open>argmaxn\<close> of the spec gives a bin of the highest count.\<close>

lemma argmaxn_one:
  assumes "hist \<noteq> []"
  shows "\<exists>b. argmaxn hist (Suc 0) = [b] \<and> b < length hist \<and> (\<forall>i<length hist. hist ! i \<le> hist ! b)"
proof -
  let ?f = "\<lambda>i. - int (hist ! i)"
  let ?xs = "sort_key ?f [0..<length hist]"
  have len: "length ?xs = length hist" by simp
  with assms have ne: "?xs \<noteq> []" by (metis length_0_conv)
  then obtain b bs where xs: "?xs = b # bs" by (cases ?xs) auto
  have "set ?xs = {0..<length hist}" by simp
  with xs have b: "b < length hist" by (metis atLeastLessThan_iff list.set_intros(1))
  have srt: "sorted (map ?f ?xs)" by (rule sorted_sort_key)
  have "\<forall>i<length hist. hist ! i \<le> hist ! b"
  proof (intro allI impI)
    fix i assume "i < length hist"
    then have "i \<in> set ?xs" by simp
    with xs have "i = b \<or> i \<in> set bs" by simp
    then show "hist ! i \<le> hist ! b"
    proof
      assume "i = b" then show ?thesis by simp
    next
      assume "i \<in> set bs"
      with srt xs have "?f b \<le> ?f i" by simp
      then show ?thesis by simp
    qed
  qed
  with xs b show ?thesis by (simp add: argmaxn_def)
qed

lemma reference_library_fields [simp]:
  "lib_bin_edges (reference_library r) = exact_bin_edges"
  "lib_argmaxn (reference_library r) = argmaxn"
  "short_sample_raises (reference_library r) = r"
  "checks_bin_width (reference_library r) = True"
  by (simp_all add: reference_library_def)

lemma library_contract_edges:
  assumes "library_contract L" and "0 < nb"
  shows "length (lib_bin_edges L vs nb) = Suc nb"
    and "sorted (lib_bin_edges L vs nb)"
    and "v \<in> set vs \<Longrightarrow> lib_bin_edges L vs nb ! 0 \<le> v \<and> v \<le> lib_bin_edges L vs nb ! nb"
  using assms by (auto simp: library_contract_def)

lemma library_contract_argmaxn:
  assumes "library_contract L" and "hist \<noteq> []"
  shows "lib_argmaxn L hist (Suc 0) \<noteq> []"
    and "b \<in> set (lib_argmaxn L hist (Suc 0)) \<Longrightarrow> b < length hist \<and> (\<forall>i<length hist. hist ! i \<le> hist ! b)"
  using assms by (auto simp: library_contract_def)

lemma reference_library_contract: "library_contract (reference_library r)"
proof -
  have a: "lib_argmaxn (reference_library r) hist 1 \<noteq> [] \<and>
        (\<forall>b \<in> set (lib_argmaxn (reference_library r) hist 1).
            b < length hist \<and> (\<forall>i<length hist. hist ! i \<le> hist ! b))"
    if "hist \<noteq> []" for hist
    using argmaxn_one [OF that] by auto
  show ?thesis
    unfolding library_contract_def
    using a exact_bin_edges_cover exact_bin_edges_increasing
    by (simp add: exact_bin_edges_length strict_sorted_imp_sorted)
qed

lemma rounding_library_fields [simp]:
  "lib_bin_edges rounding_library = rounded_bin_edges"
  "lib_argmaxn rounding_library = argmaxn"
  "short_sample_raises rounding_library = True"
  "checks_bin_width rounding_library = True"
  by (simp_all add: rounding_library_def)

lemma rounded_bin_edges_nth:
  "i \<le> nb \<Longrightarrow> rounded_bin_edges vs nb ! i =
     (if i < nb then of_int \<lfloor>exact_bin_edges vs nb ! i\<rfloor> else of_int \<lceil>exact_bin_edges vs nb ! i\<rceil>)"
  unfolding rounded_bin_edges_def by (subst nth_map_upt) simp_all

lemma rounded_bin_edges_length [simp]: "length (rounded_bin_edges vs nb) = Suc nb"
  by (simp add: rounded_bin_edges_def)

lemma rounded_bin_edges_sorted:
  assumes "0 < nb"
  shows "sorted (rounded_bin_edges vs nb)"
proof -
  let ?E = "exact_bin_edges vs nb"
  have inc: "?E ! i \<le> ?E ! j" if "i \<le> j" "j \<le> nb" for i j
  proof (cases "i = j")
    case False
    with that have "i < j" "j < length ?E" by (simp_all add: exact_bin_edges_length)
    with exact_bin_edges_increasing [OF assms, of vs] have "?E ! i < ?E ! j"
      by (simp add: sorted_wrt_iff_nth_less)
    then show ?thesis by simp
  qed simp
  show ?thesis
    unfolding sorted_iff_nth_mono
  proof (intro allI impI)
    fix i j assume ij: "i \<le> j" and "j < length (rounded_bin_edges vs nb)"
    then have j: "j \<le> nb" by simp
    from inc [OF ij j] have fl: "\<lfloor>?E ! i\<rfloor> \<le> \<lfloor>?E ! j\<rfloor>" by (rule floor_mono)
    from inc [OF ij j] have cl: "\<lceil>?E ! i\<rceil> \<le> \<lceil>?E ! j\<rceil>" by (rule ceiling_mono)
    have "\<lfloor>?E ! j\<rfloor> \<le> \<lceil>?E ! j\<rceil>" by (rule floor_le_ceiling)
    with fl have fc: "\<lfloor>?E ! i\<rfloor> \<le> \<lceil>?E ! j\<rceil>" by (rule order_trans)
    from ij j have i: "i \<le> nb" by simp
    show "rounded_bin_edges vs nb ! i \<le> rounded_bin_edges vs nb ! j"
    proof (cases "j < nb")
      case True
      with ij have "i < nb" by simp
      with True fl show ?thesis
        by (simp add: rounded_bin_edges_nth [OF i] rounded_bin_edges_nth [OF j])
    next
      case False
      with j have jn: "j = nb" by simp
      show ?thesis
      proof (cases "i < nb")
        case True
        with jn fc show ?thesis
          by (simp add: rounded_bin_edges_nth [OF i] rounded_bin_edges_nth [of nb nb])
      next
        case False
        with i jn have "i = j" by simp
        then show ?thesis by simp
      qed
    qed
  qed
qed

lemma rounding_library_contract: "library_contract rounding_library"
proof -
  have a: "lib_argmaxn rounding_library hist 1 \<noteq> [] \<and>
        (\<forall>b \<in> set (lib_argmaxn rounding_library hist 1).
            b < length hist \<and> (\<forall>i<length hist. hist ! i \<le> hist ! b))"
    if "hist \<noteq> []" for hist
    using argmaxn_one [OF that] by auto
  have c: "rounded_bin_edges vs nb ! 0 \<le> v \<and> v \<le> rounded_bin_edges vs nb ! nb"
    if "0 < nb" "v \<in> set vs" for vs nb v
  proof -
    from exact_bin_edges_cover [OF that(2,1)]
    have "exact_bin_edges vs nb ! 0 \<le> v" "v \<le> exact_bin_edges vs nb ! nb" by simp_all
    moreover have "real_of_int \<lfloor>exact_bin_edges vs nb ! 0\<rfloor> \<le> exact_bin_edges vs nb ! 0" by simp
    moreover have "exact_bin_edges vs nb ! nb \<le> real_of_int \<lceil>exact_bin_edges vs nb ! nb\<rceil>" by simp
    ultimately have "real_of_int \<lfloor>exact_bin_edges vs nb ! 0\<rfloor> \<le> v"
      "v \<le> real_of_int \<lceil>exact_bin_edges vs nb ! nb\<rceil>" by linarith+
    then show ?thesis
      using that(1) by (simp add: rounded_bin_edges_nth)
  qed
  show ?thesis
    unfolding library_contract_def
    using a c rounded_bin_edges_sorted by simp
qed

subsection \<open>The selector call\<close>

lemma histogram_Finite:
  assumes "1 \<le> bins"
  shows "histogram L (map Finite rs) bins =
           (if checks_bin_width L \<longrightarrow> sorted_wrt (<) (lib_bin_edges L rs (nat bins))
            then Inr (map (\<lambda>i. length (filter (in_half_open_bin (lib_bin_edges L rs (nat bins))
                                  (nat bins) i) rs)) [0..<nat bins],
                      lib_bin_edges L rs (nat bins))
            else Inl (ValueError TooManyBins))"
  using assms by (simp add: histogram_def those_map_Finite Let_def)

lemma histogram_Inl:
  "histogram L a bins = Inl e \<Longrightarrow>
     e = ValueError BinsNotPositive \<or> e = ValueError RangeNotFinite \<or> e = ValueError TooManyBins"
  by (auto simp: histogram_def Let_def split: if_splits option.splits)

lemma histogram_Inr:
  assumes "histogram L a bins = Inr (hist, edges)"
  shows "1 \<le> bins \<and> (\<exists>vs. a = map Finite vs \<and> edges = lib_bin_edges L vs (nat bins) \<and>
           (checks_bin_width L \<longrightarrow> sorted_wrt (<) edges) \<and>
           hist = map (\<lambda>i. length (filter (in_half_open_bin edges (nat bins) i) vs)) [0..<nat bins])"
  using assms
  by (auto simp: histogram_def Let_def split: if_splits option.splits dest: those_f64_real_Some)

lemma np_where_Finite:
  "np_where (in_closed_bin lo hi) (map Finite rs) =
     filter (\<lambda>i. lo \<le> rs ! i \<and> rs ! i \<le> hi) [0..<length rs]"
  unfolding np_where_def by (rule filter_cong) auto

lemma clamp_n_bins_fields [simp]:
  "estimator_list (clamp_n_bins s) = estimator_list s"
  "n_clf (clamp_n_bins s) = n_clf s"
  "local_region_size (clamp_n_bins s) = local_region_size s"
  "local_region_min (clamp_n_bins s) = local_region_min s"
  "local_region_max (clamp_n_bins s) = local_region_max s"
  "local_max_features (clamp_n_bins s) = local_max_features s"
  "local_min_features (clamp_n_bins s) = local_min_features s"
  "local_region_iterations (clamp_n_bins s) = local_region_iterations s"
  "local_region_threshold (clamp_n_bins s) = local_region_threshold s"
  "n_selected (clamp_n_bins s) = n_selected s"
  "random_state (clamp_n_bins s) = random_state s"
  "n_features' (clamp_n_bins s) = n_features' s"
  "X_train_norm' (clamp_n_bins s) = X_train_norm' s"
  "train_scores' (clamp_n_bins s) = train_scores' s"
  "training_pseudo_label' (clamp_n_bins s) = training_pseudo_label' s"
  "decision_scores' (clamp_n_bins s) = decision_scores' s"
  by (simp_all add: clamp_n_bins_def warn_def)

lemma clamp_n_bins_n_bins: "n_bins (clamp_n_bins s) = min (n_bins s) (int (n_clf s))"
  by (simp add: clamp_n_bins_def warn_def)

lemma clamp_n_bins_warnings:
  "warnings (clamp_n_bins s) =
     warnings s @ (if int (n_clf s) < n_bins s then [NBinsWarning] else [])"
  by (simp add: clamp_n_bins_def warn_def)

lemma clamp_n_bins_idem [simp]: "clamp_n_bins (clamp_n_bins s) = clamp_n_bins s"
  by (simp add: clamp_n_bins_def warn_def)


lemma clamp_n_bins_NBins:
  "count_list (warnings (clamp_n_bins s)) NBinsWarning =
     count_list (warnings s) NBinsWarning + (if int (n_clf s) < n_bins s then 1 else 0)"
  by (simp add: clamp_n_bins_warnings)

lemma get_competent_detectors_snd [simp]:
  "snd (get_competent_detectors L s scores) = clamp_n_bins s"
  by (simp add: get_competent_detectors_def Let_def split: sum.splits prod.splits)

lemma get_competent_detectors_cong:
  assumes "n_selected s = n_selected t" and "n_bins (clamp_n_bins s) = n_bins (clamp_n_bins t)"
  shows "fst (get_competent_detectors L s scores) = fst (get_competent_detectors L t scores)"
  using assms by (simp add: get_competent_detectors_def Let_def split: sum.splits prod.splits)

lemma get_competent_detectors_Inl:
  "fst (get_competent_detectors L s scores) = Inl e \<Longrightarrow>
     e = ValueError BinsNotPositive \<or> e = ValueError RangeNotFinite \<or> e = ValueError TooManyBins"
  by (auto simp: get_competent_detectors_def Let_def split: sum.splits prod.splits
      dest: histogram_Inl)

lemma candidates_in_range:
  assumes "get_competent_detectors L s scores = (Inr cands, s')"
  shows "set cands \<subseteq> {0..<length scores}"
  using assms
  by (auto simp: get_competent_detectors_def Let_def np_where_def split: sum.splits prod.splits)

text \<open>
  What the selector has done when it returns: the bin count is the clamped one and at
  least one, the scores are finite, the edges are those of the library and strictly
  increasing, and the candidates are collected bin by bin from the bins that \<open>argmaxn\<close>
  gives for the counts.
\<close>

lemma get_competent_detectors_Inr:
  assumes "get_competent_detectors L s scores = (Inr cands, s')"
  shows "s' = clamp_n_bins s \<and> 1 \<le> n_bins (clamp_n_bins s) \<and>
         (\<exists>rs. scores = map Finite rs \<and>
            (checks_bin_width L \<longrightarrow>
               sorted_wrt (<) (lib_bin_edges L rs (nat (n_bins (clamp_n_bins s))))) \<and>
            cands = concat (map (\<lambda>b.
                filter (\<lambda>j. lib_bin_edges L rs (nat (n_bins (clamp_n_bins s))) ! b \<le> rs ! j \<and>
                            rs ! j \<le> lib_bin_edges L rs (nat (n_bins (clamp_n_bins s))) ! Suc b)
                  [0..<length rs])
              (lib_argmaxn L
                 (map (\<lambda>i. length (filter (in_half_open_bin
                        (lib_bin_edges L rs (nat (n_bins (clamp_n_bins s))))
                        (nat (n_bins (clamp_n_bins s))) i) rs))
                    [0..<nat (n_bins (clamp_n_bins s))])
                 (n_selected s))))"
proof -
  let ?nbi = "n_bins (clamp_n_bins s)"
  from assms obtain hist edges where h: "histogram L scores ?nbi = Inr (hist, edges)"
    by (auto simp: get_competent_detectors_def Let_def split: sum.splits prod.splits)
  from histogram_Inr [OF h] obtain rs where
    pos: "1 \<le> ?nbi" and sc: "scores = map Finite rs"
    and e: "edges = lib_bin_edges L rs (nat ?nbi)" and srt: "checks_bin_width L \<longrightarrow> sorted_wrt (<) edges"
    and hi: "hist = map (\<lambda>i. length (filter (in_half_open_bin edges (nat ?nbi) i) rs)) [0..<nat ?nbi]"
    by blast
  from assms h have "s' = clamp_n_bins s"
    and "cands = concat (map (\<lambda>b. np_where (in_closed_bin (edges ! b) (edges ! Suc b)) scores)
                           (lib_argmaxn L hist (n_selected s)))"
    by (simp_all add: get_competent_detectors_def Let_def)
  with pos sc e srt hi show ?thesis
    by (auto simp: np_where_Finite)
qed

lemma get_competent_detectors_returns:
  assumes "1 \<le> n_bins (clamp_n_bins s)"
    and "checks_bin_width L \<longrightarrow> sorted_wrt (<) (lib_bin_edges L rs (nat (n_bins (clamp_n_bins s))))"
  shows "\<exists>cands. get_competent_detectors L s (map Finite rs) = (Inr cands, clamp_n_bins s)"
  using assms by (simp add: get_competent_detectors_def histogram_Finite Let_def)

text \<open>A bin of the highest count holds a score, when there is a score at all.\<close>

lemma densest_bin_occupied:
  assumes nb: "0 < nb" and cover: "\<forall>v \<in> set rs. E ! 0 \<le> v \<and> v \<le> E ! nb" and ne: "rs \<noteq> []"
    and b: "b < nb"
    and mx: "\<forall>i<nb. length (filter (in_half_open_bin E nb i) rs)
                     \<le> length (filter (in_half_open_bin E nb b) rs)"
  shows "\<exists>j<length rs. E ! b \<le> rs ! j \<and> rs ! j \<le> E ! Suc b"
proof -
  from ne obtain v where v: "v \<in> set rs" by (cases rs) auto
  with cover have "E ! 0 \<le> v" "v \<le> E ! nb" by blast+
  with nb obtain i where i: "i < nb" "in_half_open_bin E nb i v"
    using some_bin_contains by blast
  with v have "filter (in_half_open_bin E nb i) rs \<noteq> []"
    by (auto simp: filter_empty_conv)
  then have "0 < length (filter (in_half_open_bin E nb i) rs)" by simp
  with mx i(1) have "0 < length (filter (in_half_open_bin E nb b) rs)"
    by (metis less_le_trans)
  then have "filter (in_half_open_bin E nb b) rs \<noteq> []" by simp
  then obtain w where w: "w \<in> set rs" "in_half_open_bin E nb b w"
    by (auto simp: filter_empty_conv)
  then obtain j where j: "j < length rs" "rs ! j = w" by (auto simp: in_set_conv_nth)
  from w(2) have "E ! b \<le> w \<and> w \<le> E ! Suc b"
    unfolding in_half_open_bin_def by auto
  with j show ?thesis by auto
qed

lemma returned_candidates_nonempty:
  assumes ret: "get_competent_detectors L s scores = (Inr cands, s')"
    and con: "library_contract L" and sel: "n_selected s = 1" and ne: "scores \<noteq> []"
  shows "cands \<noteq> []"
proof -
  let ?nb = "nat (n_bins (clamp_n_bins s))"
  from get_competent_detectors_Inr [OF ret] obtain rs where
    pos: "1 \<le> n_bins (clamp_n_bins s)" and sc: "scores = map Finite rs"
    and cands: "cands = concat (map (\<lambda>b.
                filter (\<lambda>j. lib_bin_edges L rs ?nb ! b \<le> rs ! j \<and> rs ! j \<le> lib_bin_edges L rs ?nb ! Suc b)
                  [0..<length rs])
              (lib_argmaxn L
                 (map (\<lambda>i. length (filter (in_half_open_bin (lib_bin_edges L rs ?nb) ?nb i) rs)) [0..<?nb])
                 (n_selected s)))"
    by blast
  let ?E = "lib_bin_edges L rs ?nb"
  let ?hist = "map (\<lambda>i. length (filter (in_half_open_bin ?E ?nb i) rs)) [0..<?nb]"
  from pos have nb: "0 < ?nb" by simp
  then have hne: "?hist \<noteq> []" by simp
  from library_contract_argmaxn(1) [OF con hne] obtain b where
    b: "b \<in> set (lib_argmaxn L ?hist (Suc 0))" by (cases "lib_argmaxn L ?hist (Suc 0)") auto
  from library_contract_argmaxn(2) [OF con hne b]
  have bl: "b < ?nb" and mx': "\<forall>i<?nb. length (filter (in_half_open_bin ?E ?nb i) rs)
                     \<le> length (filter (in_half_open_bin ?E ?nb b) rs)" by auto
  from library_contract_edges(3) [OF con nb]
  have cover: "\<forall>v \<in> set rs. ?E ! 0 \<le> v \<and> v \<le> ?E ! ?nb" by blast
  from ne sc have rne: "rs \<noteq> []" by auto
  from densest_bin_occupied [OF nb cover rne bl mx'] obtain j where
    j: "j < length rs" "?E ! b \<le> rs ! j" "rs ! j \<le> ?E ! Suc b" by blast
  then have "j \<in> set (filter (\<lambda>j. ?E ! b \<le> rs ! j \<and> rs ! j \<le> ?E ! Suc b) [0..<length rs])"
    by simp
  with b have "j \<in> set cands" unfolding cands sel by auto
  then show ?thesis by auto
qed

subsection \<open>The claims on the selector\<close>


text \<open>
  C4. With a single bin, the selector returns the indices of all detectors, whatever the
  finite correlation scores are: the one bin spans the whole range of the scores and both
  of its edges are inclusive. The object is left as it was.
\<close>

theorem single_bin_selects_all:
  assumes "n_bins s = 1" and "n_selected s = 1" and "0 < n_clf s"
  shows "get_competent_detectors (reference_library r) s (map Finite rs) = (Inr [0..<length rs], s)"
proof -
  obtain lo hi where rng: "histogram_range rs = (lo, hi)" by (cases "histogram_range rs")
  have cl: "clamp_n_bins s = s" using assms by (simp add: clamp_n_bins_def)
  have E: "exact_bin_edges rs (Suc 0) = [lo, hi]" by (simp add: exact_bin_edges_def rng bin_edges_of_def)
  have lt: "lo < hi" using exact_bin_edges_increasing [of "Suc 0" rs] E by simp
  have all_in: "filter (\<lambda>i. lo \<le> rs ! i \<and> rs ! i \<le> hi) [0..<length rs] = [0..<length rs]"
    using histogram_range_bounds(2) [OF rng] by (simp add: filter_id_conv)
  have am: "argmaxn [n] (Suc 0) = [0]" for n by (simp add: argmaxn_def)
  show ?thesis
    using assms lt
    by (simp add: get_competent_detectors_def cl histogram_Finite E am np_where_Finite all_in)
qed

theorem single_bin_selects_all_witness:
  "n_bins (ex_model\<lparr>n_bins := 1\<rparr>) = 1 \<and> n_selected (ex_model\<lparr>n_bins := 1\<rparr>) = 1 \<and>
   0 < n_clf (ex_model\<lparr>n_bins := 1\<rparr>) \<and>
   get_competent_detectors (reference_library True) (ex_model\<lparr>n_bins := 1\<rparr>)
       [Finite (3 / 10), Finite (- 1 / 5)] =
     (Inr [0, 1], ex_model\<lparr>n_bins := 1\<rparr>)"
  using single_bin_selects_all [of "ex_model\<lparr>n_bins := 1\<rparr>" True "[3 / 10, - 1 / 5]"]
  by (simp add: ex_model_def LSCP_init_def upt_conv_Cons)


text \<open>
  Five scores between -1 and 1 in four bins: the edges are -1, -1/2, 0, 1/2 and 1, the
  counts are 1, 2, 1 and 1, and the second bin is selected. The score 0 is the upper edge
  of that bin and the lower edge of the third.
\<close>

lemma ex_five_fields [simp]:
  "n_bins ex_five = 4" "n_clf ex_five = 5" "n_selected ex_five = 1"
  by (simp_all add: ex_five_def LSCP_init_def)




text \<open>
  C6, as the code has it. With at least two detectors and one correlation score per
  detector, a candidate set that the selector returns is not empty and holds indices of
  detectors. The selector returns one exactly when the bin count is at least one, every
  score is finite and, where the library checks it, the bin edges are strictly increasing.
\<close>

theorem candidates_nonempty:
  assumes "library_contract L" and "n_selected s = 1" and "2 \<le> n_clf s"
    and "length scores = n_clf s"
  shows "(\<forall>cands s'. get_competent_detectors L s scores = (Inr cands, s') \<longrightarrow>
            cands \<noteq> [] \<and> set cands \<subseteq> {0..<n_clf s}) \<and>
         ((\<exists>cands. get_competent_detectors L s scores = (Inr cands, clamp_n_bins s)) \<longleftrightarrow>
            1 \<le> n_bins s \<and>
            (\<exists>rs. scores = map Finite rs \<and>
               (checks_bin_width L \<longrightarrow>
                  sorted_wrt (<) (lib_bin_edges L rs (nat (min (n_bins s) (int (n_clf s))))))))"
proof (intro conjI allI impI)
  fix cands s' assume r: "get_competent_detectors L s scores = (Inr cands, s')"
  from assms have "scores \<noteq> []" by auto
  from returned_candidates_nonempty [OF r assms(1,2) this] show "cands \<noteq> []" .
  from candidates_in_range [OF r] assms(4) show "set cands \<subseteq> {0..<n_clf s}" by simp
next
  have pos: "1 \<le> n_bins (clamp_n_bins s) \<longleftrightarrow> 1 \<le> n_bins s"
    using assms(3) by (auto simp: clamp_n_bins_n_bins)
  show "(\<exists>cands. get_competent_detectors L s scores = (Inr cands, clamp_n_bins s)) \<longleftrightarrow>
            1 \<le> n_bins s \<and>
            (\<exists>rs. scores = map Finite rs \<and>
               (checks_bin_width L \<longrightarrow>
                  sorted_wrt (<) (lib_bin_edges L rs (nat (min (n_bins s) (int (n_clf s)))))))"
  proof
    assume "\<exists>cands. get_competent_detectors L s scores = (Inr cands, clamp_n_bins s)"
    then obtain cands where "get_competent_detectors L s scores = (Inr cands, clamp_n_bins s)" ..
    from get_competent_detectors_Inr [OF this] pos
    show "1 \<le> n_bins s \<and>
            (\<exists>rs. scores = map Finite rs \<and>
               (checks_bin_width L \<longrightarrow>
                  sorted_wrt (<) (lib_bin_edges L rs (nat (min (n_bins s) (int (n_clf s)))))))"
      by (auto simp: clamp_n_bins_n_bins)
  next
    assume a: "1 \<le> n_bins s \<and>
            (\<exists>rs. scores = map Finite rs \<and>
               (checks_bin_width L \<longrightarrow>
                  sorted_wrt (<) (lib_bin_edges L rs (nat (min (n_bins s) (int (n_clf s)))))))"
    then obtain rs where rs: "scores = map Finite rs"
      "checks_bin_width L \<longrightarrow>
         sorted_wrt (<) (lib_bin_edges L rs (nat (n_bins (clamp_n_bins s))))"
      by (auto simp: clamp_n_bins_n_bins)
    from a pos have "1 \<le> n_bins (clamp_n_bins s)" by simp
    from get_competent_detectors_returns [OF this rs(2)] rs(1)
    show "\<exists>cands. get_competent_detectors L s scores = (Inr cands, clamp_n_bins s)" by simp
  qed
qed

lemma ex_model_constructed: "constructed ex_model"
  by (simp add: constructed_def ex_model_def LSCP_init_def python_int_def)

lemma ex_model_fields [simp]:
  "n_bins ex_model = 10" "n_clf ex_model = 2" "n_selected ex_model = 1"
  by (simp_all add: ex_model_def LSCP_init_def)

theorem candidates_nonempty_witness:
  "library_contract (reference_library True) \<and> n_selected ex_model = 1 \<and> 2 \<le> n_clf ex_model \<and>
   length [Finite 1, Finite 1] = n_clf ex_model \<and>
   get_competent_detectors (reference_library True) ex_model [Finite 1, Finite 1] =
     (Inr [0, 1], clamp_n_bins ex_model) \<and>
   1 \<le> n_bins ex_model \<and>
   sorted_wrt (<) (lib_bin_edges (reference_library True) [1, 1]
                     (nat (min (n_bins ex_model) (int (n_clf ex_model)))))"
proof -
  have h: "n_selected ex_model = 1" "2 \<le> n_clf ex_model"
    "length [Finite 1, Finite 1] = n_clf ex_model" by simp_all
  have e: "fst (get_competent_detectors (reference_library True) ex_model [Finite 1, Finite 1]) =
             Inr [0, 1]" by code_simp
  have r: "get_competent_detectors (reference_library True) ex_model [Finite 1, Finite 1] =
     (Inr [0, 1], clamp_n_bins ex_model)"
    by (rule prod_eqI) (simp_all add: e)
  have "[Finite 1, Finite 1] = map Finite rs \<longleftrightarrow> rs = [1, 1]" for rs
    by (cases rs; cases "tl rs"; cases "tl (tl rs)") auto
  with candidates_nonempty [OF reference_library_contract h, of True] r h
  show ?thesis using reference_library_contract [of True] by auto
qed

text \<open>
  Two correlation scores that are undefined, as a local region of fewer than two points
  gives them where the correlation does not raise, make the selector raise, whatever the
  library; so does a bin count of zero.
\<close>

theorem undefined_scores_raise:
  "\<forall>L. constructed ex_model \<and> length [NaN, NaN] = n_clf ex_model \<and>
     fst (get_competent_detectors L ex_model [NaN, NaN]) = Inl (ValueError RangeNotFinite) \<and>
     fst (get_competent_detectors L (ex_model\<lparr>n_bins := 0\<rparr>) [Finite 1, Finite 0]) =
       Inl (ValueError BinsNotPositive)"
  by (simp add: get_competent_detectors_def histogram_def clamp_n_bins_def warn_def
      ex_model_constructed)

text \<open>
  Finite scores on a range too narrow for the rounded edges: the two bins between 0 and 1
  have the rounded edges 0, 0 and 1, and the selector raises.
\<close>

lemma colliding_edges_raise:
  "library_contract rounding_library \<and>
   lib_bin_edges rounding_library [0, 1] 2 = [0, 0, 1] \<and>
   fst (get_competent_detectors rounding_library ex_model [Finite 0, Finite 1]) =
     Inl (ValueError TooManyBins)"
proof -
  have e: "rounded_bin_edges [0, 1] 2 = [0, 0, 1]"
    by (simp add: rounded_bin_edges_def exact_bin_edges_def histogram_range_def bin_edges_of_def
        upt_conv_Cons)
  have "nat (n_bins (clamp_n_bins ex_model)) = 2" by (simp add: clamp_n_bins_n_bins)
  then show ?thesis
    using rounding_library_contract e
    by (simp add: get_competent_detectors_def histogram_def clamp_n_bins_n_bins)
qed

section \<open>The local region estimator: properties\<close>

subsection \<open>Counting votes\<close>

lemma counter_add_fst:
  "map fst (counter_add x cs) = (if x \<in> fst ` set cs then map fst cs else map fst cs @ [x])"
  by (induction cs) (auto split: if_splits)

lemma counter_add_map_of:
  "map_of (counter_add x cs) = (map_of cs)(x \<mapsto> (case map_of cs x of None \<Rightarrow> 1 | Some c \<Rightarrow> Suc c))"
  by (induction cs) (auto simp: fun_eq_iff)

lemma fold_counter_add_distinct:
  "distinct (map fst cs) \<Longrightarrow> distinct (map fst (fold counter_add xs cs))"
proof (induction xs arbitrary: cs)
  case Nil
  then show ?case by simp
next
  case (Cons x xs)
  have "distinct (map fst (counter_add x cs))"
    using Cons.prems by (auto simp: counter_add_fst)
  then show ?case using Cons.IH by simp
qed

lemma fold_counter_add_map_of:
  "map_of (fold counter_add xs cs) i =
     (if i \<in> set xs \<or> i \<in> fst ` set cs
      then Some (count_list xs i + (case map_of cs i of None \<Rightarrow> 0 | Some c \<Rightarrow> c))
      else None)"
proof (induction xs arbitrary: cs)
  case Nil
  then show ?case by (auto simp: map_of_eq_None_iff split: option.splits)
next
  case (Cons x xs)
  have fst_set: "fst ` set (counter_add x cs) = insert x (fst ` set cs)"
    using counter_add_fst [of x cs] by (metis (no_types, lifting) insert_absorb list.set_map
        list.simps(15) set_append Un_insert_right sup_bot.right_neutral list.set(1))
  show ?case
    by (simp add: Cons.IH fst_set counter_add_map_of split: option.splits)
qed

lemma Counter_distinct: "distinct (map fst (Counter xs))"
  unfolding Counter_def by (rule fold_counter_add_distinct) simp

lemma Counter_set: "(i, c) \<in> set (Counter xs) \<longleftrightarrow> i \<in> set xs \<and> c = count_list xs i"
proof -
  have "(i, c) \<in> set (Counter xs) \<longleftrightarrow> map_of (Counter xs) i = Some c"
    using Counter_distinct by (metis map_of_eq_Some_iff)
  also have "\<dots> \<longleftrightarrow> i \<in> set xs \<and> c = count_list xs i"
    unfolding Counter_def by (auto simp: fold_counter_add_map_of)
  finally show ?thesis .
qed

lemma threshold_votes_set:
  "set (threshold_votes t votes) = {i. t < count_list votes i}"
proof -
  have "set (threshold_votes t votes) = {i. \<exists>c. (i, c) \<in> set (Counter votes) \<and> t < c}"
    unfolding threshold_votes_def by force
  also have "\<dots> = {i. i \<in> set votes \<and> t < count_list votes i}"
    by (simp add: Counter_set)
  also have "\<dots> = {i. t < count_list votes i}"
    by (metis (no_types, lifting) count_notin not_less_zero)
  finally show ?thesis .
qed

lemma threshold_votes_distinct: "distinct (threshold_votes t votes)"
  unfolding threshold_votes_def
  using Counter_distinct [of votes] by (simp add: distinct_map_filter)

lemma threshold_votes_subset: "set (threshold_votes t votes) \<subseteq> set votes"
  by (auto simp: threshold_votes_set intro: ccontr)

lemma threshold_votes_length: "length (threshold_votes t votes) \<le> length votes"
proof -
  have "length (threshold_votes t votes) = card (set (threshold_votes t votes))"
    by (simp add: distinct_card threshold_votes_distinct)
  also have "\<dots> \<le> card (set votes)"
    by (rule card_mono) (simp_all add: threshold_votes_subset)
  also have "\<dots> \<le> length votes" by (rule card_length)
  finally show ?thesis .
qed

subsection \<open>The sampler and the index\<close>

lemma draw_simps [simp]: "fst (draw r) = tape r (pos r)" "tape (snd (draw r)) = tape r"
  "pos (snd (draw r)) = Suc (pos r)"
  by (simp_all add: draw_def)

lemma sample_without_replacement_props:
  assumes "sample_without_replacement r pool c = (xs, r')" and "distinct pool"
  shows "distinct xs \<and> set xs \<subseteq> set pool \<and> length xs = min c (length pool) \<and>
         tape r' = tape r \<and> pos r' = pos r + length xs"
  using assms
proof (induction c arbitrary: r pool xs r')
  case 0
  then show ?case by auto
next
  case (Suc c)
  show ?case
  proof (cases "pool = []")
    case True
    with Suc.prems show ?thesis by auto
  next
    case False
    define x where "x = pool ! (fst (draw r) mod length pool)"
    obtain rest r2 where rec: "sample_without_replacement (snd (draw r)) (remove1 x pool) c = (rest, r2)"
      by (cases "sample_without_replacement (snd (draw r)) (remove1 x pool) c")
    from False have xin: "x \<in> set pool" unfolding x_def by simp
    from Suc.prems(1) False rec have res: "xs = x # rest" "r' = r2"
      by (auto simp: x_def case_prod_beta Let_def)
    have d: "distinct (remove1 x pool)" using Suc.prems(2) by simp
    from Suc.IH [OF rec d]
    have ih: "distinct rest" "set rest \<subseteq> set (remove1 x pool)"
      "length rest = min c (length (remove1 x pool))" "tape r2 = tape r" "pos r2 = Suc (pos r) + length rest"
      by simp_all
    have notin: "x \<notin> set rest" using ih(2) Suc.prems(2) by auto
    have sub: "set rest \<subseteq> set pool" using ih(2) by (meson notin_set_remove1 subset_code(1))
    have len: "length (remove1 x pool) = length pool - 1" using xin by (simp add: length_remove1)
    from False have "0 < length pool" by simp
    then have "Suc (min c (length pool - 1)) = min (Suc c) (length pool)" by linarith
    with ih(3) len have "Suc (length rest) = min (Suc c) (length pool)" by simp
    with res ih notin sub xin show ?thesis by auto
  qed
qed

lemma sample_without_replacement_rng:
  "tape (snd (sample_without_replacement r pool c)) = tape r \<and>
   pos r \<le> pos (snd (sample_without_replacement r pool c))"
proof (induction c arbitrary: r pool)
  case 0
  then show ?case by simp
next
  case (Suc c)
  show ?case
  proof (cases "pool = []")
    case True
    then show ?thesis by simp
  next
    case False
    let ?x = "pool ! (fst (draw r) mod length pool)"
    from Suc [of "snd (draw r)" "remove1 ?x pool"] False
    show ?thesis by (auto simp: case_prod_beta Let_def)
  qed
qed

lemma generate_bagging_indices_Inr:
  assumes "generate_bagging_indices r n lo hi = (Inr features, r')"
  shows "lo \<le> int (length features) \<and> int (length features) \<le> hi \<and> distinct features \<and>
         set features \<subseteq> {0..<n} \<and> tape r' = tape r \<and> pos r' = Suc (pos r) + length features"
proof -
  from assms have b: "0 \<le> lo" "lo \<le> hi" "hi \<le> int n"
    by (auto simp: generate_bagging_indices_def split: if_splits)
  define m where "m = nat lo + fst (draw r) mod (nat (hi - lo) + 1)"
  obtain fs r2 where sw: "sample_without_replacement (snd (draw r)) [0..<n] m = (fs, r2)"
    by (cases "sample_without_replacement (snd (draw r)) [0..<n] m")
  from assms b sw have res: "features = fs" "r' = r2"
    by (auto simp: generate_bagging_indices_def m_def case_prod_beta Let_def)
  have "fst (draw r) mod (nat (hi - lo) + 1) \<le> nat (hi - lo)"
    by (metis Suc_eq_plus1 less_Suc_eq_le mod_less_divisor zero_less_Suc)
  with b have mb: "lo \<le> int m" "int m \<le> hi" unfolding m_def by linarith+
  with b have mn: "m \<le> n" by linarith
  from sample_without_replacement_props [OF sw] mn
  have "distinct fs" "set fs \<subseteq> {0..<n}" "length fs = m" "tape r2 = tape r"
    "pos r2 = Suc (pos r) + length fs"
    by auto
  with res mb show ?thesis by simp
qed

lemma generate_bagging_indices_rng:
  "tape (snd (generate_bagging_indices r n lo hi)) = tape r \<and>
   pos r \<le> pos (snd (generate_bagging_indices r n lo hi))"
proof -
  have "tape (snd (sample_without_replacement (snd (draw r)) pool c)) = tape r \<and>
        pos r \<le> pos (snd (sample_without_replacement (snd (draw r)) pool c))" for pool c
    using sample_without_replacement_rng [of "snd (draw r)" pool c] by simp
  then show ?thesis
    by (simp add: generate_bagging_indices_def case_prod_beta Let_def)
qed

lemma tree_query_Inr:
  assumes "tree_query tree X k = Inr ind_arr"
  shows "length ind_arr = length X \<and> (\<forall>row \<in> set ind_arr. length row = nat k \<and> set row \<subseteq> {0..<length tree})"
proof -
  from assms have k: "0 \<le> k" "k \<le> int (length tree)" and ia: "ind_arr = map (nearest tree (nat k)) X"
    by (auto simp: tree_query_def split: if_splits)
  have "length (nearest tree (nat k) q) = nat k \<and> set (nearest tree (nat k) q) \<subseteq> {0..<length tree}" for q
  proof -
    have "set (nearest tree (nat k) q) \<subseteq> set (sort_key (\<lambda>i. sqdist (tree ! i) q) [0..<length tree])"
      unfolding nearest_def by (rule set_take_subset)
    then show ?thesis using k by (auto simp: nearest_def)
  qed
  with ia show ?thesis by auto
qed

lemma neighbors_in_subspace_Inr:
  assumes "neighbors_in_subspace s Xtr X features = Inr ind_arr"
  shows "length ind_arr = length X \<and>
         (\<forall>row \<in> set ind_arr. length row = nat (local_region_size s) \<and> set row \<subseteq> {0..<length Xtr})"
proof -
  from assms obtain tree where t: "KDTree (select_features Xtr features) = Inr tree"
      and q: "tree_query tree (select_features X features) (local_region_size s) = Inr ind_arr"
    by (auto simp: neighbors_in_subspace_def split: sum.splits)
  from t have "length tree = length Xtr"
    by (auto simp: KDTree_def select_features_def split: if_splits)
  with tree_query_Inr [OF q] show ?thesis by (simp add: select_features_def)
qed

lemma vote_iterations_rng:
  "tape (snd (vote_iterations it s r X L)) = tape r \<and> pos r \<le> pos (snd (vote_iterations it s r X L))"
proof (induction it arbitrary: r L)
  case 0
  then show ?case by simp
next
  case (Suc it)
  show ?case
  proof (cases "X_train_norm' s")
    case None
    then show ?thesis by simp
  next
    case (Some Xtr)
    obtain res r1 where sm: "sample_subspace s Xtr r = (res, r1)" by (cases "sample_subspace s Xtr r")
    have r1: "tape r1 = tape r" "pos r \<le> pos r1"
      using generate_bagging_indices_rng sm unfolding sample_subspace_def by (metis snd_conv)+
    show ?thesis
    proof (cases res)
      case (Inl e)
      with Some sm r1 show ?thesis by simp
    next
      case (Inr features)
      show ?thesis
      proof (cases "neighbors_in_subspace s Xtr X features")
        case (Inl e)
        with Some sm Inr r1 show ?thesis by simp
      next
        case nb: (Inr ind_arr)
        from Suc [of r1 "map2 (@) L ind_arr"] r1 Some sm Inr nb show ?thesis by auto
      qed
    qed
  qed
qed

lemma vote_iterations_Inr:
  assumes "vote_iterations it s r X L = (Inr L', r')" and "length L = length X"
  shows "length L' = length X \<and>
         (\<forall>j<length X. length (L' ! j) = length (L ! j) + it * nat (local_region_size s)) \<and>
         pos r + it \<le> pos r'"
  using assms
proof (induction it arbitrary: r L)
  case 0
  then show ?case by auto
next
  case (Suc it)
  from Suc.prems(1) obtain Xtr where Some: "X_train_norm' s = Some Xtr"
    by (cases "X_train_norm' s") auto
  obtain res r1 where sm: "sample_subspace s Xtr r = (res, r1)" by (cases "sample_subspace s Xtr r")
  from Suc.prems(1) Some sm obtain features where Inr: "res = Inr features"
    by (cases res) auto
  from Suc.prems(1) Some sm Inr obtain ind_arr where nb: "neighbors_in_subspace s Xtr X features = Inr ind_arr"
    by (cases "neighbors_in_subspace s Xtr X features") auto
  from Suc.prems(1) Some sm Inr nb
  have rec: "vote_iterations it s r1 X (map2 (@) L ind_arr) = (Inr L', r')" by simp
  from neighbors_in_subspace_Inr [OF nb]
  have ia: "length ind_arr = length X" "\<forall>row \<in> set ind_arr. length row = nat (local_region_size s)"
    by auto
  have len: "length (map2 (@) L ind_arr) = length X" using ia Suc.prems(2) by simp
  from sm Inr have "pos r1 = Suc (pos r) + length features"
    using generate_bagging_indices_Inr unfolding sample_subspace_def by blast
  then have p: "Suc (pos r) \<le> pos r1" by simp
  from Suc.IH [OF rec len]
  have ih: "length L' = length X"
    "\<forall>j<length X. length (L' ! j) = length (map2 (@) L ind_arr ! j) + it * nat (local_region_size s)"
    "pos r1 + it \<le> pos r'" by auto
  have "length (L' ! j) = length (L ! j) + Suc it * nat (local_region_size s)" if "j < length X" for j
  proof -
    from that ia have "ind_arr ! j \<in> set ind_arr" by simp
    with ia have "length (ind_arr ! j) = nat (local_region_size s)" by blast
    with that ih(2) ia Suc.prems(2) show ?thesis by simp
  qed
  with ih p show ?case by auto
qed

lemma get_local_region_snd:
  "snd (get_local_region s X) =
     s\<lparr>random_state := snd (vote_iterations (local_region_iterations s) s (random_state s) X
                              (replicate (length X) []))\<rparr>"
  by (simp add: get_local_region_def split: prod.splits sum.splits)

lemma get_local_region_Inr:
  assumes "get_local_region s X = (Inr regions, s')"
  shows "\<exists>votes r. vote_iterations (local_region_iterations s) s (random_state s) X
                     (replicate (length X) []) = (Inr votes, r) \<and>
                   regions = map (threshold_votes (local_region_threshold s)) votes \<and>
                   s' = s\<lparr>random_state := r\<rparr>"
  using assms by (auto simp: get_local_region_def split: prod.splits sum.splits)

lemma python_int_floor: "0 \<le> x \<Longrightarrow> python_int x = \<lfloor>x\<rfloor>"
  by (simp add: python_int_def)

lemma python_int_le_ceiling: "python_int x \<le> \<lceil>x\<rceil>"
  by (simp add: python_int_def floor_le_ceiling)

text \<open>
  C2, as the code has it. The bounds handed to the sampler are \<open>int(d * 0.5)\<close> and
  \<open>int(d * local_max_features)\<close>: the size of every sampled subspace is at least the
  floor of half the feature count (not its ceiling) and at most the truncated
  \<open>d * local_max_features\<close>, hence at most its ceiling; the feature indices are distinct
  and below d.
\<close>

theorem subspace_size_bounds:
  assumes "sample_subspace s Xtr r = (Inr features, r')" and "constructed s"
  shows "\<lfloor>real (shape1 Xtr) / 2\<rfloor> \<le> int (length features) \<and>
         int (length features) \<le> python_int (real (shape1 Xtr) * local_max_features s) \<and>
         int (length features) \<le> \<lceil>real (shape1 Xtr) * local_max_features s\<rceil> \<and>
         distinct features \<and> set features \<subseteq> {0..<shape1 Xtr}"
proof -
  from assms(2) have mn: "local_min_features s = 1 / 2" by (simp add: constructed_def)
  from assms(1) have g: "generate_bagging_indices r (shape1 Xtr)
      (python_int (real (shape1 Xtr) / 2))
      (python_int (real (shape1 Xtr) * local_max_features s)) = (Inr features, r')"
    by (simp add: sample_subspace_def mn)
  have lo: "python_int (real (shape1 Xtr) / 2) = \<lfloor>real (shape1 Xtr) / 2\<rfloor>"
    by (rule python_int_floor) simp
  from generate_bagging_indices_Inr [OF g] lo
    python_int_le_ceiling [of "real (shape1 Xtr) * local_max_features s"]
  show ?thesis by auto
qed

theorem subspace_size_bounds_witness:
  "fst (sample_subspace ex_model ex_train \<lparr>tape = ex_tape, pos = 0\<rparr>) = Inr [0] \<and>
   constructed ex_model \<and>
   \<lfloor>real (shape1 ex_train) / 2\<rfloor> \<le> int (length [0::nat]) \<and>
   int (length [0::nat]) \<le> python_int (real (shape1 ex_train) * local_max_features ex_model) \<and>
   int (length [0::nat]) \<le> \<lceil>real (shape1 ex_train) * local_max_features ex_model\<rceil> \<and>
   distinct [0::nat] \<and> set [0::nat] \<subseteq> {0..<shape1 ex_train}"
proof -
  have f: "fst (sample_subspace ex_model ex_train \<lparr>tape = ex_tape, pos = 0\<rparr>) = Inr [0]"
    by code_simp
  then have h: "sample_subspace ex_model ex_train \<lparr>tape = ex_tape, pos = 0\<rparr> =
      (Inr [0], snd (sample_subspace ex_model ex_train \<lparr>tape = ex_tape, pos = 0\<rparr>))"
    by (metis prod.collapse)
  from subspace_size_bounds [OF h ex_model_constructed] f ex_model_constructed
  show ?thesis by blast
qed

text \<open>
  With three features and the sampler's smallest size, the subspace has one feature, below
  the ceiling of one half of three.
\<close>

theorem subspace_below_ceiling:
  "constructed ex_model \<and>
   fst (sample_subspace ex_model [[0, 0, 0]] \<lparr>tape = (\<lambda>i. 0), pos = 0\<rparr>) = Inr [0] \<and>
   \<not> \<lceil>real (shape1 [[0, 0, 0]]) * local_min_features ex_model\<rceil> \<le> int (length [0::nat])"
proof -
  have "fst (sample_subspace ex_model [[0, 0, 0]] \<lparr>tape = (\<lambda>i. 0), pos = 0\<rparr>) = Inr [0]"
    by code_simp
  moreover have "\<not> \<lceil>real (shape1 [[0, 0, 0]]) * local_min_features ex_model\<rceil> \<le> int (length [0::nat])"
    by (simp add: shape1_def ex_model_def LSCP_init_def)
  ultimately show ?thesis using ex_model_constructed by blast
qed

text \<open>
  C3. The local region of a query point is exactly the set of training indices that occur
  more often than \<open>local_region_threshold\<close> among the votes of all iterations (more than
  10 times in 20 iterations for a constructed object); it is a subset of the votes, without
  repetitions, and neither the votes nor the region are more than
  \<open>iterations * region_size\<close>.
\<close>

theorem local_region_is_majority_vote:
  assumes "get_local_region s X = (Inr regions, s')"
  shows "\<exists>votes.
           fst (vote_iterations (local_region_iterations s) s (random_state s) X
                  (replicate (length X) [])) = Inr votes \<and>
           length votes = length X \<and> length regions = length X \<and>
           (\<forall>j<length X.
              set (regions ! j) = {i. local_region_threshold s < count_list (votes ! j) i} \<and>
              distinct (regions ! j) \<and>
              set (regions ! j) \<subseteq> set (votes ! j) \<and>
              length (votes ! j) = local_region_iterations s * nat (local_region_size s) \<and>
              length (regions ! j) \<le> local_region_iterations s * nat (local_region_size s)) \<and>
           (constructed s \<longrightarrow> local_region_threshold s = 10 \<and> local_region_iterations s = 20)"
proof -
  from get_local_region_Inr [OF assms] obtain votes r where
    v: "vote_iterations (local_region_iterations s) s (random_state s) X (replicate (length X) [])
          = (Inr votes, r)"
    and reg: "regions = map (threshold_votes (local_region_threshold s)) votes"
    by blast
  from vote_iterations_Inr [OF v]
  have len: "length votes = length X"
    and each: "\<forall>j<length X. length (votes ! j) = local_region_iterations s * nat (local_region_size s)"
    by auto
  have "set (regions ! j) = {i. local_region_threshold s < count_list (votes ! j) i} \<and>
        distinct (regions ! j) \<and> set (regions ! j) \<subseteq> set (votes ! j) \<and>
        length (votes ! j) = local_region_iterations s * nat (local_region_size s) \<and>
        length (regions ! j) \<le> local_region_iterations s * nat (local_region_size s)"
    if "j < length X" for j
  proof -
    from that len reg have rj: "regions ! j = threshold_votes (local_region_threshold s) (votes ! j)"
      by simp
    from that each have l: "length (votes ! j) = local_region_iterations s * nat (local_region_size s)"
      by simp
    show ?thesis
      unfolding rj
      using threshold_votes_set threshold_votes_distinct threshold_votes_subset
        threshold_votes_length [of "local_region_threshold s" "votes ! j"] l
      by auto
  qed
  moreover have "constructed s \<longrightarrow> local_region_threshold s = 10 \<and> local_region_iterations s = 20"
    by (simp add: constructed_def)
  ultimately show ?thesis using v len reg by auto
qed

section \<open>The scoring call: frame and dependence\<close>

subsection \<open>The loop over the query points\<close>

lemma collect_Inr_length: "collect rs = Inr vs \<Longrightarrow> length vs = length rs"
proof (induction rs arbitrary: vs)
  case Nil
  then show ?case by simp
next
  case (Cons r rs)
  then show ?case by (cases r) (auto split: sum.splits)
qed

lemma collect_Inr_nth: "collect rs = Inr vs \<Longrightarrow> i < length rs \<Longrightarrow> rs ! i = Inr (vs ! i)"
proof (induction rs arbitrary: vs i)
  case Nil
  then show ?case by simp
next
  case (Cons r rs)
  then show ?case by (cases r; cases i) (auto split: sum.splits)
qed

lemma collect_Inl: "collect rs = Inl e \<Longrightarrow> Inl e \<in> set rs"
proof (induction rs)
  case Nil
  then show ?case by simp
next
  case (Cons r rs)
  then show ?case by (cases r) (auto split: sum.splits)
qed

lemma collect_all_Inr: "collect (map (\<lambda>x. Inr (f x)) xs) = Inr (map f xs)"
  by (induction xs) simp_all

lemma collect_first_Inl: "collect (Inl e # rs) = Inl e"
  by simp

lemma pearsonr_short:
  "length x < 2 \<Longrightarrow>
     pearsonr L x y = (if short_sample_raises L then Inl (ValueError CorrelationUndefined) else Inr NaN)"
  by (simp add: pearsonr_def Let_def)

lemma pearsonr_long: "2 \<le> length x \<Longrightarrow> \<exists>v. pearsonr L x y = Inr v"
  by (simp add: pearsonr_def Let_def)

lemma pearsonr_Inl:
  "pearsonr L x y = Inl e \<Longrightarrow>
     e = ValueError CorrelationUndefined \<and> short_sample_raises L \<and> length x < 2"
  by (auto simp: pearsonr_def Let_def split: if_splits)

lemma pearsonr_Finite: "pearsonr L x y = Inr (Finite v) \<Longrightarrow> 2 \<le> length x"
  by (auto simp: pearsonr_def Let_def split: if_splits)

lemma local_correlations_cong:
  "n_clf s = n_clf t \<Longrightarrow> local_correlations L s pl tn region = local_correlations L t pl tn region"
  by (simp add: local_correlations_def)

lemma local_correlations_length:
  "local_correlations L s pl tn region = Inr corr \<Longrightarrow> length corr = n_clf s"
  by (auto simp: local_correlations_def Let_def dest: collect_Inr_length)

lemma local_correlations_Inl:
  assumes "local_correlations L s pl tn region = Inl e"
  shows "e = ValueError CorrelationUndefined \<and> short_sample_raises L \<and> length region < 2"
proof -
  from assms have "Inl e \<in> set (map (\<lambda>d. pearsonr L (map (\<lambda>i. pl ! i) region)
                      (column (map (\<lambda>i. tn ! i) region) d)) [0..<n_clf s])"
    by (auto simp: local_correlations_def Let_def dest: collect_Inl)
  then obtain d where "pearsonr L (map (\<lambda>i. pl ! i) region) (column (map (\<lambda>i. tn ! i) region) d) = Inl e"
    by auto
  from pearsonr_Inl [OF this] show ?thesis by simp
qed

text \<open>
  The correlations of a region of fewer than two points: the first call of \<open>pearsonr\<close>
  raises, or every correlation is NaN.
\<close>

lemma local_correlations_short:
  assumes "length region < 2" and "0 < n_clf s"
  shows "local_correlations L s pl tn region =
           (if short_sample_raises L then Inl (ValueError CorrelationUndefined)
            else Inr (replicate (n_clf s) NaN))"
proof (cases "short_sample_raises L")
  case True
  from assms(2) obtain n where n: "n_clf s = Suc n" by (cases "n_clf s") auto
  have "[0..<Suc n] = 0 # [1..<Suc n]" by (simp add: upt_conv_Cons)
  with True assms(1) show ?thesis
    by (simp add: local_correlations_def Let_def n pearsonr_short del: upt_Suc)
next
  case False
  have "map (\<lambda>d. pearsonr L (map (\<lambda>i. pl ! i) region) (column (map (\<lambda>i. tn ! i) region) d))
            [0..<n_clf s] = map (\<lambda>d. Inr ((\<lambda>d. NaN) d)) [0..<n_clf s]"
    using False assms(1) by (simp add: pearsonr_short)
  then have "local_correlations L s pl tn region = Inr (map (\<lambda>d. NaN) [0..<n_clf s])"
    unfolding local_correlations_def Let_def by (simp only: collect_all_Inr)
  with False show ?thesis by (simp add: map_replicate_const)
qed

lemma local_correlations_finite:
  assumes "local_correlations L s pl tn region = Inr (map Finite vs)" and "0 < n_clf s"
  shows "2 \<le> length region \<and> length vs = n_clf s"
proof -
  from local_correlations_length [OF assms(1)] have len: "length vs = n_clf s" by simp
  have "2 \<le> length region"
  proof (rule ccontr)
    assume "\<not> 2 \<le> length region"
    then have "length region < 2" by simp
    from local_correlations_short [OF this assms(2), of L pl tn] assms(1)
    have "map Finite vs = replicate (n_clf s) NaN" by (auto split: if_splits)
    then have "map Finite vs ! 0 = replicate (n_clf s) NaN ! 0" by simp
    with len assms(2) show False by simp
  qed
  with len show ?thesis by simp
qed

text \<open>
  The object after the loop: as it was when there is no query point or the correlations of
  the first one raise, and with the bin count clamped otherwise.
\<close>

lemma score_points_snd:
  "snd (score_points L s pl tn pts) =
     (if pts = [] \<or> isl (local_correlations L s pl tn (snd (hd pts))) then s else clamp_n_bins s)"
proof (induction pts arbitrary: s)
  case Nil
  then show ?case by simp
next
  case (Cons p pts)
  obtain row region where p: "p = (row, region)" by (cases p)
  show ?case
  proof (cases "local_correlations L s pl tn region")
    case (Inl e)
    then show ?thesis by (simp add: p)
  next
    case (Inr corr)
    obtain a where g: "get_competent_detectors L s corr = (a, clamp_n_bins s)"
      by (metis get_competent_detectors_snd prod.collapse)
    from Cons [of "clamp_n_bins s"]
    have "snd (score_points L (clamp_n_bins s) pl tn pts) = clamp_n_bins s" by (simp split: if_splits)
    then obtain c where r: "score_points L (clamp_n_bins s) pl tn pts = (c, clamp_n_bins s)"
      by (metis prod.collapse)
    show ?thesis by (simp add: p Inr g r split: sum.splits)
  qed
qed

lemma score_points_snd_cases:
  "snd (score_points L s pl tn pts) = s \<or> snd (score_points L s pl tn pts) = clamp_n_bins s"
  by (simp add: score_points_snd)

lemma score_points_snd_clamped [simp]:
  "snd (score_points L (clamp_n_bins s) pl tn pts) = clamp_n_bins s"
  by (simp add: score_points_snd)

lemma score_points_fields [simp]:
  "estimator_list (snd (score_points L s pl tn pts)) = estimator_list s"
  "n_clf (snd (score_points L s pl tn pts)) = n_clf s"
  "local_region_size (snd (score_points L s pl tn pts)) = local_region_size s"
  "local_region_min (snd (score_points L s pl tn pts)) = local_region_min s"
  "local_region_max (snd (score_points L s pl tn pts)) = local_region_max s"
  "local_max_features (snd (score_points L s pl tn pts)) = local_max_features s"
  "local_min_features (snd (score_points L s pl tn pts)) = local_min_features s"
  "local_region_iterations (snd (score_points L s pl tn pts)) = local_region_iterations s"
  "local_region_threshold (snd (score_points L s pl tn pts)) = local_region_threshold s"
  "n_selected (snd (score_points L s pl tn pts)) = n_selected s"
  "random_state (snd (score_points L s pl tn pts)) = random_state s"
  "n_features' (snd (score_points L s pl tn pts)) = n_features' s"
  "X_train_norm' (snd (score_points L s pl tn pts)) = X_train_norm' s"
  "train_scores' (snd (score_points L s pl tn pts)) = train_scores' s"
  "training_pseudo_label' (snd (score_points L s pl tn pts)) = training_pseudo_label' s"
  "decision_scores' (snd (score_points L s pl tn pts)) = decision_scores' s"
  by (simp_all add: score_points_snd)

lemma score_points_n_bins:
  "(n_bins (snd (score_points L s pl tn pts)) = n_bins s \<and>
    count_list (warnings (snd (score_points L s pl tn pts))) NBinsWarning =
      count_list (warnings s) NBinsWarning) \<or>
   (int (n_clf s) < n_bins s \<and> n_bins (snd (score_points L s pl tn pts)) = int (n_clf s) \<and>
    count_list (warnings (snd (score_points L s pl tn pts))) NBinsWarning =
      Suc (count_list (warnings s) NBinsWarning))"
  by (simp add: score_points_snd clamp_n_bins_NBins clamp_n_bins_n_bins)

lemma score_points_clamp_n_bins:
  "n_bins (clamp_n_bins (snd (score_points L s pl tn pts))) = n_bins (clamp_n_bins s)"
  by (simp add: score_points_snd)

lemma score_points_Cons:
  "score_points L s pl tn ((row, region) # pts) =
     (case local_correlations L s pl tn region of
        Inl e \<Rightarrow> (Inl e, s)
      | Inr corr \<Rightarrow>
          (case fst (get_competent_detectors L s corr) of
             Inl e \<Rightarrow> (Inl e, clamp_n_bins s)
           | Inr cands \<Rightarrow>
               (case fst (score_points L (clamp_n_bins s) pl tn pts) of
                  Inl e \<Rightarrow> (Inl e, clamp_n_bins s)
                | Inr pred \<Rightarrow> (Inr (np_mean (map (\<lambda>c. row ! c) cands) # pred), clamp_n_bins s))))"
proof (cases "local_correlations L s pl tn region")
  case (Inl e)
  then show ?thesis by simp
next
  case (Inr corr)
  obtain a where g: "get_competent_detectors L s corr = (a, clamp_n_bins s)"
    by (metis get_competent_detectors_snd prod.collapse)
  obtain c where r: "score_points L (clamp_n_bins s) pl tn pts = (c, clamp_n_bins s)"
    by (metis prod.collapse score_points_snd_clamped)
  show ?thesis by (simp add: Inr g r split: sum.splits)
qed

lemma score_points_cong:
  assumes "n_clf s = n_clf t" and "n_selected s = n_selected t"
    and "n_bins (clamp_n_bins s) = n_bins (clamp_n_bins t)"
  shows "fst (score_points L s pl tn pts) = fst (score_points L t pl tn pts)"
  using assms
proof (induction pts arbitrary: s t)
  case Nil
  then show ?case by simp
next
  case (Cons p pts)
  obtain row region where p: "p = (row, region)" by (cases p)
  have c: "local_correlations L s pl tn region = local_correlations L t pl tn region"
    using Cons.prems(1) by (rule local_correlations_cong)
  have g: "fst (get_competent_detectors L s corr) = fst (get_competent_detectors L t corr)" for corr
    using Cons.prems(2,3) by (rule get_competent_detectors_cong)
  have r: "fst (score_points L (clamp_n_bins s) pl tn pts) =
           fst (score_points L (clamp_n_bins t) pl tn pts)"
    using Cons.prems by (intro Cons.IH) simp_all
  show ?case unfolding p score_points_Cons c g r
    by (simp split: sum.splits)
qed

lemma np_mean_finite: "xs \<noteq> [] \<Longrightarrow> np_mean xs \<noteq> NaN"
  by (simp add: np_mean_def)

text \<open>
  A loop that returns has scored every point, and every point had a region of two
  training points or more.
\<close>

lemma score_points_Inr:
  assumes "fst (score_points L s pl tn pts) = Inr pred" and "0 < n_clf s"
  shows "length pred = length pts \<and> (\<forall>p \<in> set pts. 2 \<le> length (snd p))"
  using assms
proof (induction pts arbitrary: s pred)
  case Nil
  then show ?case by simp
next
  case (Cons p pts)
  obtain row region where p: "p = (row, region)" by (cases p)
  from Cons.prems(1) obtain corr where c: "local_correlations L s pl tn region = Inr corr"
    unfolding p score_points_Cons by (auto split: sum.splits)
  with Cons.prems(1) obtain cands where g: "fst (get_competent_detectors L s corr) = Inr cands"
    unfolding p score_points_Cons by (auto split: sum.splits)
  with Cons.prems(1) c obtain pred' where
    r: "fst (score_points L (clamp_n_bins s) pl tn pts) = Inr pred'"
    and pr: "pred = np_mean (map (\<lambda>c. row ! c) cands) # pred'"
    unfolding p score_points_Cons by (auto split: sum.splits)
  from g have "get_competent_detectors L s corr = (Inr cands, clamp_n_bins s)"
    by (intro prod_eqI) simp_all
  from get_competent_detectors_Inr [OF this] obtain vs where vs: "corr = map Finite vs" by blast
  from local_correlations_finite [OF c [unfolded vs] Cons.prems(2)]
  have reg: "2 \<le> length region" by simp
  from Cons.IH [OF r] Cons.prems(2)
  have ih: "length pred' = length pts" "\<forall>p \<in> set pts. 2 \<le> length (snd p)"
    by simp_all
  with pr reg p show ?case by simp
qed

lemma score_points_Inr_finite:
  assumes "fst (score_points L s pl tn pts) = Inr pred" and "n_selected s = 1" and "0 < n_clf s"
    and "library_contract L"
  shows "NaN \<notin> set pred"
  using assms(1,2,3)
proof (induction pts arbitrary: s pred)
  case Nil
  then show ?case by simp
next
  case (Cons p pts)
  obtain row region where p: "p = (row, region)" by (cases p)
  from Cons.prems(1) obtain corr where c: "local_correlations L s pl tn region = Inr corr"
    unfolding p score_points_Cons by (auto split: sum.splits)
  with Cons.prems(1) obtain cands where g: "fst (get_competent_detectors L s corr) = Inr cands"
    unfolding p score_points_Cons by (auto split: sum.splits)
  with Cons.prems(1) c obtain pred' where
    r: "fst (score_points L (clamp_n_bins s) pl tn pts) = Inr pred'"
    and pr: "pred = np_mean (map (\<lambda>c. row ! c) cands) # pred'"
    unfolding p score_points_Cons by (auto split: sum.splits)
  from g have ret: "get_competent_detectors L s corr = (Inr cands, clamp_n_bins s)"
    by (intro prod_eqI) simp_all
  from local_correlations_length [OF c] Cons.prems(3) have "corr \<noteq> []" by auto
  from returned_candidates_nonempty [OF ret assms(4) Cons.prems(2) this]
  have "cands \<noteq> []" .
  then have fin: "np_mean (map (\<lambda>c. row ! c) cands) \<noteq> NaN" by (simp add: np_mean_finite)
  from Cons.IH [OF r] Cons.prems(2,3) have "NaN \<notin> set pred'" by simp
  with pr fin show ?case by auto
qed

lemma score_points_Inl:
  "fst (score_points L s pl tn pts) = Inl e \<Longrightarrow>
     e = ValueError BinsNotPositive \<or> e = ValueError RangeNotFinite \<or>
     e = ValueError TooManyBins \<or> (e = ValueError CorrelationUndefined \<and> short_sample_raises L)"
proof (induction pts arbitrary: s)
  case Nil
  then show ?case by simp
next
  case (Cons p pts)
  obtain row region where p: "p = (row, region)" by (cases p)
  from Cons.prems show ?case
    unfolding p score_points_Cons
    by (auto split: sum.splits dest: get_competent_detectors_Inl Cons.IH local_correlations_Inl)
qed

text \<open>The loop at a first point whose region has fewer than two training points.\<close>

lemma score_points_short_first:
  assumes "length region < 2" and "0 < n_clf s"
  shows "score_points L s pl tn ((row, region) # pts) =
           (if short_sample_raises L then (Inl (ValueError CorrelationUndefined), s)
            else (Inl (ValueError (if n_bins (clamp_n_bins s) < 1 then BinsNotPositive
                                    else RangeNotFinite)), clamp_n_bins s))"
proof -
  have "those (map f64_real (replicate (n_clf s) NaN)) = None"
    using assms(2) by (cases "n_clf s") simp_all
  then have "fst (get_competent_detectors L s (replicate (n_clf s) NaN)) =
          Inl (ValueError (if n_bins (clamp_n_bins s) < 1 then BinsNotPositive else RangeNotFinite))"
    by (simp add: get_competent_detectors_def histogram_def)
  then show ?thesis
    unfolding score_points_Cons
    by (simp add: local_correlations_short [OF assms])
qed

subsection \<open>The scoring call\<close>

lemma region_size_warning_fields [simp]:
  "estimator_list (region_size_warning s) = estimator_list s"
  "n_clf (region_size_warning s) = n_clf s"
  "local_region_size (region_size_warning s) = local_region_size s"
  "local_region_min (region_size_warning s) = local_region_min s"
  "local_region_max (region_size_warning s) = local_region_max s"
  "local_max_features (region_size_warning s) = local_max_features s"
  "local_min_features (region_size_warning s) = local_min_features s"
  "local_region_iterations (region_size_warning s) = local_region_iterations s"
  "local_region_threshold (region_size_warning s) = local_region_threshold s"
  "n_bins (region_size_warning s) = n_bins s"
  "n_selected (region_size_warning s) = n_selected s"
  "random_state (region_size_warning s) = random_state s"
  "n_features' (region_size_warning s) = n_features' s"
  "X_train_norm' (region_size_warning s) = X_train_norm' s"
  "train_scores' (region_size_warning s) = train_scores' s"
  "training_pseudo_label' (region_size_warning s) = training_pseudo_label' s"
  "decision_scores' (region_size_warning s) = decision_scores' s"
  by (simp_all add: region_size_warning_def warn_def)

lemma region_size_warning_NBins [simp]:
  "count_list (warnings (region_size_warning s)) NBinsWarning = count_list (warnings s) NBinsWarning"
  by (simp add: region_size_warning_def warn_def)

lemma score_points_min_n_bins:
  "min (n_bins (snd (score_points L s pl tn pts))) (int (n_clf s)) = min (n_bins s) (int (n_clf s))"
  by (simp add: score_points_snd clamp_n_bins_n_bins)

text \<open>The scoring call, with the local region estimator written out.\<close>

lemma get_decision_scores_eq:
  "get_decision_scores L s X =
     (let s0 = region_size_warning s;
          vr = vote_iterations (local_region_iterations s) s0 (random_state s) X
                 (replicate (length X) []);
          s1 = s0\<lparr>random_state := snd vr\<rparr>
      in case fst vr of
           Inl e \<Rightarrow> (Inl e, s1)
         | Inr votes \<Rightarrow>
             (case X_train_norm' s of
                None \<Rightarrow> (Inl AttributeError, s1)
              | Some Xtr \<Rightarrow>
                  (case train_scores' s of
                     None \<Rightarrow> (Inl AttributeError, s1)
                   | Some trs \<Rightarrow>
                       (let test_scores =
                              map (\<lambda>row. map (\<lambda>e. det_decision_function e Xtr row) (estimator_list s)) X;
                            tn = fst (standardizer trs test_scores);
                            tsn = snd (standardizer trs test_scores);
                            pl = map (\<lambda>row. Max (set row)) tn;
                            s2 = s1\<lparr>training_pseudo_label' := Some pl\<rparr>;
                            pts = zip tsn (map (threshold_votes (local_region_threshold s)) votes)
                        in if [] \<in> set tn then (Inl (ValueError EmptyReduction), s1)
                           else (fst (score_points L s2 pl tn pts),
                                 snd (score_points L s2 pl tn pts))))))"
  unfolding get_decision_scores_def
  by (simp add: Let_def get_local_region_def case_prod_beta
      split: prod.splits sum.splits option.splits)

lemma vote_iterations_cong:
  assumes "X_train_norm' s = X_train_norm' t" and "local_min_features s = local_min_features t"
    and "local_max_features s = local_max_features t" and "local_region_size s = local_region_size t"
  shows "vote_iterations it s r X acc = vote_iterations it t r X acc"
proof (induction it arbitrary: r acc)
  case 0
  then show ?case by simp
next
  case (Suc it)
  have sm: "sample_subspace s Xtr r = sample_subspace t Xtr r" for Xtr
    using assms by (simp add: sample_subspace_def)
  have nb: "neighbors_in_subspace s Xtr X f = neighbors_in_subspace t Xtr X f" for Xtr f
    using assms by (simp add: neighbors_in_subspace_def split: sum.splits)
  show ?case
    by (simp add: assms(1) [symmetric] sm nb Suc split: option.splits prod.splits sum.splits)
qed

lemma get_decision_scores_frame:
  assumes "get_decision_scores L s X = (res, s')"
  shows "same_configuration s s'"
    and "decision_scores' s' = decision_scores' s"
    and "tape (random_state s') = tape (random_state s)"
    and "pos (random_state s) \<le> pos (random_state s')"
    and "training_pseudo_label' s \<noteq> None \<Longrightarrow> training_pseudo_label' s' \<noteq> None"
    and "(n_bins s' = n_bins s \<and>
          count_list (warnings s') NBinsWarning = count_list (warnings s) NBinsWarning) \<or>
         (int (n_clf s) < n_bins s \<and> n_bins s' = int (n_clf s) \<and>
          count_list (warnings s') NBinsWarning = Suc (count_list (warnings s) NBinsWarning))"
proof -
  let ?vr = "vote_iterations (local_region_iterations s) (region_size_warning s) (random_state s) X
                 (replicate (length X) [])"
  note vr = vote_iterations_rng [of "local_region_iterations s" "region_size_warning s"
      "random_state s" X "replicate (length X) []"]
  from assms have s': "s' = snd (get_decision_scores L s X)" by simp
  show "same_configuration s s'"
    unfolding s' get_decision_scores_eq same_configuration_def
    using score_points_min_n_bins [where L = L and pts = pts
        and s = "region_size_warning s\<lparr>random_state := r, training_pseudo_label' := l\<rparr>" for r l pts]
    by (simp add: Let_def clamp_n_bins_n_bins split: sum.splits option.splits)
  show "decision_scores' s' = decision_scores' s"
    unfolding s' get_decision_scores_eq
    by (simp add: Let_def split: sum.splits option.splits)
  show "tape (random_state s') = tape (random_state s)"
    unfolding s' get_decision_scores_eq using vr
    by (simp add: Let_def split: sum.splits option.splits)
  show "pos (random_state s) \<le> pos (random_state s')"
    unfolding s' get_decision_scores_eq using vr
    by (simp add: Let_def split: sum.splits option.splits)
  show "training_pseudo_label' s \<noteq> None \<Longrightarrow> training_pseudo_label' s' \<noteq> None"
    unfolding s' get_decision_scores_eq
    by (simp add: Let_def split: sum.splits option.splits)
  have nb: "(n_bins (snd (score_points L t pl tn pts)) = n_bins s \<and>
          count_list (warnings (snd (score_points L t pl tn pts))) NBinsWarning =
            count_list (warnings s) NBinsWarning) \<or>
         (int (n_clf s) < n_bins s \<and> n_bins (snd (score_points L t pl tn pts)) = int (n_clf s) \<and>
          count_list (warnings (snd (score_points L t pl tn pts))) NBinsWarning =
            Suc (count_list (warnings s) NBinsWarning))"
    if "n_bins t = n_bins s" "n_clf t = n_clf s"
       "count_list (warnings t) NBinsWarning = count_list (warnings s) NBinsWarning"
    for t pl tn pts
    using score_points_n_bins [of L t pl tn pts] that by simp
  show "(n_bins s' = n_bins s \<and>
          count_list (warnings s') NBinsWarning = count_list (warnings s) NBinsWarning) \<or>
         (int (n_clf s) < n_bins s \<and> n_bins s' = int (n_clf s) \<and>
          count_list (warnings s') NBinsWarning = Suc (count_list (warnings s) NBinsWarning))"
    unfolding s' get_decision_scores_eq
    by (simp add: Let_def nb split: sum.splits option.splits)
qed

lemma get_decision_scores_cong:
  assumes "same_configuration s t" and "random_state s = random_state t"
  shows "fst (get_decision_scores L s X) = fst (get_decision_scores L t X)"
proof -
  from assms(1) have f: "estimator_list s = estimator_list t" "n_clf s = n_clf t"
    "local_region_size s = local_region_size t"
    "local_max_features s = local_max_features t" "local_min_features s = local_min_features t"
    "local_region_iterations s = local_region_iterations t"
    "local_region_threshold s = local_region_threshold t"
    "n_selected s = n_selected t" "X_train_norm' s = X_train_norm' t"
    "train_scores' s = train_scores' t" "n_bins (clamp_n_bins s) = n_bins (clamp_n_bins t)"
    by (simp_all add: same_configuration_def)
  have v: "vote_iterations it (region_size_warning s) r X A =
           vote_iterations it (region_size_warning t) r X A" for it r A
    by (rule vote_iterations_cong) (simp_all add: f)
  have sp: "fst (score_points L (region_size_warning s\<lparr>random_state := r, training_pseudo_label' := l\<rparr>) pl tn pts) =
            fst (score_points L (region_size_warning t\<lparr>random_state := r, training_pseudo_label' := l\<rparr>) pl tn pts)"
    for r l pl tn pts
    using f(2,8,11) by (intro score_points_cong) (simp_all add: clamp_n_bins_n_bins)
  show ?thesis
    unfolding get_decision_scores_eq
    by (simp add: Let_def f(1,6,7,9,10) [symmetric] assms(2) [symmetric] v sp
        split: sum.splits option.splits)
qed

lemma standardizer_lengths:
  "length (fst (standardizer tr te)) = length tr" "length (snd (standardizer tr te)) = length te"
  by (simp_all add: standardizer_def)

text \<open>
  The scoring call once the local regions are there: the loop over the query points, on
  the object with the pseudo target stored.
\<close>

lemma get_decision_scores_regions:
  assumes "get_local_region (region_size_warning s) X = (Inr regions, s1)"
    and "X_train_norm' s = Some Xtr" and "train_scores' s = Some trs"
    and "[] \<notin> set (map (standardize_row trs) trs)"
  shows "get_decision_scores L s X =
           score_points L (s1\<lparr>training_pseudo_label' :=
                              Some (map (\<lambda>row. Max (set row)) (map (standardize_row trs) trs))\<rparr>)
             (map (\<lambda>row. Max (set row)) (map (standardize_row trs) trs))
             (map (standardize_row trs) trs)
             (zip (map (standardize_row trs)
                     (map (\<lambda>row. map (\<lambda>e. det_decision_function e Xtr row) (estimator_list s)) X))
                  regions)"
proof -
  from get_local_region_Inr [OF assms(1)] obtain r where
    s1: "s1 = region_size_warning s\<lparr>random_state := r\<rparr>" by auto
  show ?thesis
    using assms(2,3,4)
    by (simp add: get_decision_scores_def assms(1) s1 standardizer_def Let_def)
qed

lemma get_decision_scores_Inr:
  assumes "get_decision_scores L s X = (Inr scores, s')" and "0 < n_clf s"
  shows "\<exists>regions s1 trs.
           get_local_region (region_size_warning s) X = (Inr regions, s1) \<and>
           length regions = length X \<and> length scores = length X \<and>
           (\<forall>region \<in> set regions. 2 \<le> length region) \<and>
           train_scores' s = Some trs \<and>
           training_pseudo_label' s' = Some (map (\<lambda>row. Max (set row)) (map (standardize_row trs) trs)) \<and>
           pos (random_state s) + local_region_iterations s \<le> pos (random_state s') \<and>
           (n_selected s = 1 \<and> library_contract L \<longrightarrow> NaN \<notin> set scores) \<and>
           (X \<noteq> [] \<longrightarrow> n_bins s' = min (n_bins s) (int (n_clf s)) \<and>
              count_list (warnings s') NBinsWarning =
                count_list (warnings s) NBinsWarning + (if int (n_clf s) < n_bins s then 1 else 0))"
proof -
  let ?s0 = "region_size_warning s"
  let ?vr = "vote_iterations (local_region_iterations s) ?s0 (random_state s) X
                 (replicate (length X) [])"
  from assms(1) obtain votes where v: "fst ?vr = Inr votes"
    unfolding get_decision_scores_eq by (auto simp: Let_def split: sum.splits)
  then obtain r where vr: "?vr = (Inr votes, r)" by (metis prod.collapse)
  then have sr: "snd ?vr = r" by simp
  let ?s1 = "?s0\<lparr>random_state := r\<rparr>"
  let ?regions = "map (threshold_votes (local_region_threshold s)) votes"
  have glr: "get_local_region ?s0 X = (Inr ?regions, ?s1)"
    by (simp add: get_local_region_def vr)
  from vote_iterations_Inr [OF vr]
  have lv: "length votes = length X" and adv: "pos (random_state s) + local_region_iterations s \<le> pos r"
    by simp_all
  from assms(1) v obtain Xtr trs where a: "X_train_norm' s = Some Xtr" "train_scores' s = Some trs"
    unfolding get_decision_scores_eq by (auto simp: Let_def split: sum.splits option.splits)
  let ?test = "map (\<lambda>row. map (\<lambda>e. det_decision_function e Xtr row) (estimator_list s)) X"
  let ?tn = "fst (standardizer trs ?test)"
  let ?tsn = "snd (standardizer trs ?test)"
  let ?pl = "map (\<lambda>row. Max (set row)) ?tn"
  let ?s2 = "?s1\<lparr>training_pseudo_label' := Some ?pl\<rparr>"
  let ?pts = "zip ?tsn ?regions"
  from assms(1) v a have ne: "[] \<notin> set ?tn"
    and sc: "fst (score_points L ?s2 ?pl ?tn ?pts) = Inr scores"
    and st: "s' = snd (score_points L ?s2 ?pl ?tn ?pts)"
    unfolding get_decision_scores_eq by (auto simp: Let_def sr split: if_splits)
  have lp: "length ?pts = length X" using lv by (simp add: standardizer_lengths)
  from score_points_Inr [OF sc] assms(2)
  have r: "length scores = length ?pts" "\<forall>p \<in> set ?pts. 2 \<le> length (snd p)" by simp_all
  have fin: "n_selected s = 1 \<and> library_contract L \<longrightarrow> NaN \<notin> set scores"
    using score_points_Inr_finite [OF sc] assms(2) by simp
  have "snd ` set ?pts = set ?regions"
    using lv by (metis (no_types, lifting) length_map list.set_map map_snd_zip standardizer_lengths(2))
  with r(2) have reg: "\<forall>region \<in> set ?regions. 2 \<le> length region" by force
  have tn: "?tn = map (standardize_row trs) trs" by (simp add: standardizer_def)
  have lab: "training_pseudo_label' s' = Some (map (\<lambda>row. Max (set row)) (map (standardize_row trs) trs))"
    unfolding st tn [symmetric] by simp
  have p: "pos (random_state s) + local_region_iterations s \<le> pos (random_state s')"
    unfolding st using adv by simp
  have nb: "X \<noteq> [] \<longrightarrow> n_bins s' = min (n_bins s) (int (n_clf s)) \<and>
              count_list (warnings s') NBinsWarning =
                count_list (warnings s) NBinsWarning + (if int (n_clf s) < n_bins s then 1 else 0)"
  proof
    assume "X \<noteq> []"
    with lp have pne: "?pts \<noteq> []" by (metis length_0_conv)
    then obtain row region rest where pts: "?pts = (row, region) # rest"
      by (cases ?pts) auto
    from sc have "\<not> isl (local_correlations L ?s2 ?pl ?tn region)"
      unfolding pts score_points_Cons by (auto split: sum.splits)
    then have "s' = clamp_n_bins ?s2" unfolding st score_points_snd pts by simp
    then show "n_bins s' = min (n_bins s) (int (n_clf s)) \<and>
              count_list (warnings s') NBinsWarning =
                count_list (warnings s) NBinsWarning + (if int (n_clf s) < n_bins s then 1 else 0)"
      by (simp add: clamp_n_bins_n_bins clamp_n_bins_NBins)
  qed
  from glr lv r(1) lp reg a(2) lab p fin nb show ?thesis by auto
qed

subsection \<open>The errors of a scoring call\<close>

lemma vote_iterations_Inl:
  "fst (vote_iterations it s r X acc) = Inl e \<Longrightarrow>
     e = AttributeError \<or> e = ValueError SubspaceBounds \<or> e = ValueError NoFeatures \<or>
     e = ValueError NeighborsOutOfRange"
proof (induction it arbitrary: r acc)
  case 0
  then show ?case by simp
next
  case (Suc it)
  show ?case
  proof (cases "X_train_norm' s")
    case None
    with Suc.prems show ?thesis by simp
  next
    case (Some Xtr)
    obtain res r1 where sm: "sample_subspace s Xtr r = (res, r1)" by (cases "sample_subspace s Xtr r")
    show ?thesis
    proof (cases res)
      case (Inl e')
      with sm have "e' = ValueError SubspaceBounds"
        by (auto simp: sample_subspace_def generate_bagging_indices_def Let_def case_prod_beta
            split: if_splits)
      with Suc.prems Some sm Inl show ?thesis by simp
    next
      case (Inr features)
      show ?thesis
      proof (cases "neighbors_in_subspace s Xtr X features")
        case (Inl e')
        then have "e' = ValueError NoFeatures \<or> e' = ValueError NeighborsOutOfRange"
          by (auto simp: neighbors_in_subspace_def KDTree_def tree_query_def
              split: sum.splits if_splits)
        with Suc.prems Some sm Inr Inl show ?thesis by auto
      next
        case nb: (Inr ind_arr)
        from Suc.prems Some sm Inr nb
        have "fst (vote_iterations it s r1 X (map2 (@) acc ind_arr)) = Inl e" by simp
        then show ?thesis by (rule Suc.IH)
      qed
    qed
  qed
qed

lemma get_decision_scores_Inl:
  assumes "fst (get_decision_scores L s X) = Inl e"
  shows "e \<noteq> ValueError (FeatureMismatch a b)"
proof -
  from assms have
    "(\<exists>it s0 r A. fst (vote_iterations it s0 r X A) = Inl e) \<or> e = AttributeError \<or>
     e = ValueError EmptyReduction \<or> (\<exists>s2 pl tn pts. fst (score_points L s2 pl tn pts) = Inl e)"
    unfolding get_decision_scores_eq
    by (auto simp: Let_def split: sum.splits option.splits if_splits)
  then show ?thesis
    by (auto dest!: vote_iterations_Inl score_points_Inl)
qed

lemma get_local_region_pair:
  assumes "fst (get_local_region s X) = res"
    and "pos (random_state (snd (get_local_region s X))) = p"
  shows "get_local_region s X = (res, s\<lparr>random_state := \<lparr>tape = tape (random_state s), pos = p\<rparr>\<rparr>)"
proof -
  let ?r = "snd (vote_iterations (local_region_iterations s) s (random_state s) X
                              (replicate (length X) []))"
  have sn: "snd (get_local_region s X) = s\<lparr>random_state := ?r\<rparr>" by (rule get_local_region_snd)
  have t: "tape ?r = tape (random_state s)" using vote_iterations_rng by blast
  from assms(2) sn have p: "pos ?r = p" by simp
  have "?r = \<lparr>tape = tape (random_state s), pos = p\<rparr>" using t p by (cases ?r) simp
  with sn have "snd (get_local_region s X) = s\<lparr>random_state := \<lparr>tape = tape (random_state s), pos = p\<rparr>\<rparr>"
    by simp
  with assms(1) show ?thesis by (metis prod.collapse)
qed

subsection \<open>The claims on the scoring call\<close>

text \<open>
  C7. On a fitted object, a query matrix whose number of features differs from the stored
  one makes \<open>decision_function\<close> raise the mismatch error: there is no result and the
  object is unchanged. When the numbers agree, this error is not raised.
\<close>

theorem feature_mismatch_raises:
  assumes "is_fitted s" and "check_array X = Inr X"
  shows "(n_features' s \<noteq> Some (shape1 X) \<longrightarrow>
            decision_function L s X =
              (Inl (ValueError (FeatureMismatch (the (n_features' s)) (shape1 X))), s)) \<and>
         (n_features' s = Some (shape1 X) \<longrightarrow>
            (\<forall>a b. fst (decision_function L s X) \<noteq> Inl (ValueError (FeatureMismatch a b))))"
proof (intro conjI impI allI)
  assume "n_features' s \<noteq> Some (shape1 X)"
  with assms show "decision_function L s X =
      (Inl (ValueError (FeatureMismatch (the (n_features' s)) (shape1 X))), s)"
    by (simp add: decision_function_def)
next
  fix a b
  assume "n_features' s = Some (shape1 X)"
  with assms have "decision_function L s X = get_decision_scores L s X"
    by (simp add: decision_function_def)
  then show "fst (decision_function L s X) \<noteq> Inl (ValueError (FeatureMismatch a b))"
    using get_decision_scores_Inl by metis
qed

lemma check_array_Inr: "check_array X = Inr Y \<Longrightarrow> Y = X \<and> X \<noteq> []"
  by (auto simp: check_array_def split: if_splits)

lemma same_configuration_sym: "same_configuration s t \<Longrightarrow> same_configuration t s"
  by (simp add: same_configuration_def)

lemma decision_function_cong:
  assumes "same_configuration s t" and "random_state s = random_state t"
    and "is_fitted s" and "is_fitted t"
  shows "fst (decision_function L s X) = fst (decision_function L t X)"
proof -
  from assms(1) have nf: "n_features' s = n_features' t" by (simp add: same_configuration_def)
  show ?thesis
  proof (cases "check_array X")
    case (Inl e)
    with assms(3,4) show ?thesis by (simp add: decision_function_def)
  next
    case (Inr Y)
    then have "Y = X" by (simp add: check_array_Inr)
    with Inr assms(3,4) get_decision_scores_cong [OF assms(1,2), of L X]
    show ?thesis by (simp add: decision_function_def nf)
  qed
qed

text \<open>
  C8. A call of \<open>decision_function\<close>, and a second call on the object it leaves, with the
  same query and the random state set back to what it was before the first call, give the
  same result: the same scores, or the same error.
\<close>

theorem decision_function_reproducible:
  assumes "decision_function L s X = (res, s1)"
  shows "fst (decision_function L (s1\<lparr>random_state := random_state s\<rparr>) X) = res"
proof (cases "is_fitted s \<and> (\<exists>Y. check_array X = Inr Y) \<and> n_features' s = Some (shape1 X)")
  case False
  with assms have "s1 = s"
    by (auto simp: decision_function_def split: sum.splits if_splits dest: check_array_Inr)
  with assms show ?thesis by simp
next
  case True
  then have fit: "is_fitted s" and ca: "check_array X = Inr X" and nf: "n_features' s = Some (shape1 X)"
    by (auto dest: check_array_Inr)
  with assms have g: "get_decision_scores L s X = (res, s1)" by (simp add: decision_function_def)
  let ?t = "s1\<lparr>random_state := random_state s\<rparr>"
  from get_decision_scores_frame(1) [OF g] have sc: "same_configuration s ?t"
    by (auto simp: same_configuration_def clamp_n_bins_n_bins)
  from get_decision_scores_frame(1,5) [OF g] fit have ft: "is_fitted ?t"
    by (simp add: is_fitted_def same_configuration_def)
  have "fst (decision_function L ?t X) = fst (decision_function L s X)"
    using decision_function_cong [OF sc _ fit ft] by simp
  with assms show ?thesis by simp
qed

lemma get_decision_scores_Inr_state:
  assumes "get_decision_scores L s X = (Inr scores, s')" and "X \<noteq> []"
  shows "n_bins s' = min (n_bins s) (int (n_clf s)) \<and>
         count_list (warnings s') NBinsWarning =
           count_list (warnings s) NBinsWarning + (if int (n_clf s) < n_bins s then 1 else 0)"
proof -
  let ?s0 = "region_size_warning s"
  let ?vr = "vote_iterations (local_region_iterations s) ?s0 (random_state s) X
                 (replicate (length X) [])"
  from assms(1) obtain votes where v: "fst ?vr = Inr votes"
    unfolding get_decision_scores_eq by (auto simp: Let_def split: sum.splits)
  then obtain r where vr: "?vr = (Inr votes, r)" by (metis prod.collapse)
  then have sr: "snd ?vr = r" by simp
  from vote_iterations_Inr [OF vr] have lv: "length votes = length X" by simp
  from assms(1) v obtain Xtr trs where a: "X_train_norm' s = Some Xtr" "train_scores' s = Some trs"
    unfolding get_decision_scores_eq by (auto simp: Let_def split: sum.splits option.splits)
  let ?test = "map (\<lambda>row. map (\<lambda>e. det_decision_function e Xtr row) (estimator_list s)) X"
  let ?tn = "fst (standardizer trs ?test)"
  let ?pl = "map (\<lambda>row. Max (set row)) ?tn"
  let ?s2 = "?s0\<lparr>random_state := r, training_pseudo_label' := Some ?pl\<rparr>"
  let ?pts = "zip (snd (standardizer trs ?test)) (map (threshold_votes (local_region_threshold s)) votes)"
  from assms(1) v a have st: "s' = snd (score_points L ?s2 ?pl ?tn ?pts)"
    and sc: "fst (score_points L ?s2 ?pl ?tn ?pts) = Inr scores"
    unfolding get_decision_scores_eq by (auto simp: Let_def sr split: if_splits)
  have "length ?pts = length X" using lv by (simp add: standardizer_lengths)
  with assms(2) have "?pts \<noteq> []" by (metis length_0_conv)
  then obtain row region rest where pts: "?pts = (row, region) # rest"
    by (cases ?pts) auto
  from sc have "\<not> isl (local_correlations L ?s2 ?pl ?tn region)"
    unfolding pts score_points_Cons by (auto split: sum.splits)
  then have "s' = clamp_n_bins ?s2" unfolding st score_points_snd pts by simp
  then show ?thesis by (simp add: clamp_n_bins_n_bins clamp_n_bins_NBins)
qed

lemma constructed_positive: "constructed s \<Longrightarrow> n_selected s = 1 \<and> 0 < n_clf s"
  by (auto simp: constructed_def)

lemma decision_function_Inr:
  assumes "decision_function L s X = (Inr scores, s')"
  shows "get_decision_scores L s X = (Inr scores, s') \<and> X \<noteq> []"
  using assms
  by (auto simp: decision_function_def split: if_splits sum.splits dest: check_array_Inr)

text \<open>
  C9. A scoring call that returns leaves the stored bin count at the smaller of the
  configured bin count and the number of detectors, with one warning when it was clamped and
  none otherwise. Any scoring call, returning or not, either leaves the bin count and the
  number of these warnings as they were, or finds the bin count above the number of
  detectors, sets it to that number and warns once. After a call that returns, a further call
  keeps the bin count and emits no such warning.
\<close>

theorem n_bins_clamped_once:
  assumes "get_decision_scores L s X = (Inr scores, s1)" and "X \<noteq> []"
  shows "n_bins s1 = min (n_bins s) (int (n_clf s)) \<and>
         count_list (warnings s1) NBinsWarning =
           count_list (warnings s) NBinsWarning + (if int (n_clf s) < n_bins s then 1 else 0) \<and>
         (\<forall>Y res s2. get_decision_scores L s Y = (res, s2) \<longrightarrow>
            (n_bins s2 = n_bins s \<and>
             count_list (warnings s2) NBinsWarning = count_list (warnings s) NBinsWarning) \<or>
            (int (n_clf s) < n_bins s \<and> n_bins s2 = int (n_clf s) \<and>
             count_list (warnings s2) NBinsWarning = Suc (count_list (warnings s) NBinsWarning))) \<and>
         (\<forall>Y res s2. get_decision_scores L s1 Y = (res, s2) \<longrightarrow>
            n_bins s2 = n_bins s1 \<and>
            count_list (warnings s2) NBinsWarning = count_list (warnings s1) NBinsWarning)"
proof -
  note first = get_decision_scores_Inr_state [OF assms]
  from get_decision_scores_frame(1) [OF assms(1)] have ncl: "n_clf s1 = n_clf s"
    by (simp add: same_configuration_def)
  have le: "n_bins s1 \<le> int (n_clf s1)" using first ncl by simp
  have later: "n_bins s2 = n_bins s1 \<and>
            count_list (warnings s2) NBinsWarning = count_list (warnings s1) NBinsWarning"
    if "get_decision_scores L s1 Y = (res, s2)" for Y res s2
    using get_decision_scores_frame(6) [OF that] le by auto
  have any: "(n_bins s2 = n_bins s \<and>
             count_list (warnings s2) NBinsWarning = count_list (warnings s) NBinsWarning) \<or>
            (int (n_clf s) < n_bins s \<and> n_bins s2 = int (n_clf s) \<and>
             count_list (warnings s2) NBinsWarning = Suc (count_list (warnings s) NBinsWarning))"
    if "get_decision_scores L s Y = (res, s2)" for Y res s2
    using get_decision_scores_frame(6) [OF that] .
  from first later any show ?thesis by blast
qed

lemma decision_function_changes:
  assumes "decision_function L s X = (Inr scores, s')" and "constructed s"
  shows "pos (random_state s) < pos (random_state s') \<and>
         tape (random_state s') = tape (random_state s) \<and>
         (\<exists>trs. train_scores' s = Some trs \<and>
            training_pseudo_label' s' =
              Some (map (\<lambda>row. Max (set row)) (map (standardize_row trs) trs))) \<and>
         X_train_norm' s' = X_train_norm' s \<and> train_scores' s' = train_scores' s \<and>
         n_features' s' = n_features' s"
proof -
  from decision_function_Inr [OF assms(1)]
  have g: "get_decision_scores L s X = (Inr scores, s')" by simp
  from assms(2) have it: "local_region_iterations s = 20" by (simp add: constructed_def)
  from get_decision_scores_Inr [OF g] constructed_positive [OF assms(2)] it
  have "pos (random_state s) + 20 \<le> pos (random_state s')"
    and "\<exists>trs. train_scores' s = Some trs \<and>
            training_pseudo_label' s' =
              Some (map (\<lambda>row. Max (set row)) (map (standardize_row trs) trs))"
    by auto
  moreover from get_decision_scores_frame(1,3) [OF g]
  have "tape (random_state s') = tape (random_state s)" "X_train_norm' s' = X_train_norm' s"
    "train_scores' s' = train_scores' s" "n_features' s' = n_features' s"
    by (simp_all add: same_configuration_def)
  ultimately show ?thesis by auto
qed

subsection \<open>What the public calls keep\<close>

text \<open>
  The constructor establishes what \<open>constructed\<close> states, and \<open>fit\<close> and
  \<open>decision_function\<close> keep it, whether they return or raise.
\<close>

lemma LSCP_init_constructed:
  assumes "LSCP_init estimators region_size max_features bins rs = Inr s"
  shows "constructed s"
  using assms
  by (auto simp: LSCP_init_def constructed_def python_int_def warn_def Let_def split: if_splits)

lemma same_configuration_constructed:
  "same_configuration s t \<Longrightarrow> constructed s \<Longrightarrow> constructed t"
  by (simp add: same_configuration_def constructed_def)

lemma fit_frame:
  assumes "fit L s X = (res, s')"
  shows "same_configuration
           (s\<lparr>n_features' := n_features' s', X_train_norm' := X_train_norm' s',
              train_scores' := train_scores' s'\<rparr>) s'"
proof (cases "check_array X")
  case (Inl e)
  with assms have "s' = s" by (simp add: fit_def)
  then show ?thesis by (simp add: same_configuration_def clamp_n_bins_n_bins)
next
  case (Inr Y)
  then have Y: "Y = X" by (simp add: check_array_Inr)
  let ?s1 = "s\<lparr>n_features' := Some (shape1 X), X_train_norm' := Some X,
      train_scores' := Some (map (\<lambda>i. map (\<lambda>e. det_decision_scores e X i) (estimator_list s))
        [0..<length X])\<rparr>"
  obtain r s2 where g: "get_decision_scores L ?s1 X = (r, s2)"
    by (cases "get_decision_scores L ?s1 X")
  from get_decision_scores_frame(1) [OF g] have sc: "same_configuration ?s1 s2" .
  from assms Inr Y g have "s' = s2 \<or> (\<exists>sc. s' = s2\<lparr>decision_scores' := Some sc\<rparr>)"
    by (auto simp: fit_def Let_def split: sum.splits)
  with sc show ?thesis
    by (auto simp: same_configuration_def clamp_n_bins_n_bins)
qed

lemma fit_constructed:
  assumes "fit L s X = (res, s')" and "constructed s"
  shows "constructed s'"
proof -
  have "constructed (s\<lparr>n_features' := n_features' s', X_train_norm' := X_train_norm' s',
              train_scores' := train_scores' s'\<rparr>)"
    using assms(2) by (simp add: constructed_def)
  with fit_frame [OF assms(1)] show ?thesis by (rule same_configuration_constructed)
qed

lemma decision_function_constructed:
  assumes "decision_function L s X = (res, s')" and "constructed s"
  shows "constructed s'"
proof (cases "get_decision_scores L s X = (res, s')")
  case True
  from get_decision_scores_frame(1) [OF True] assms(2) show ?thesis
    by (rule same_configuration_constructed)
next
  case False
  with assms(1) have "s' = s"
    by (auto simp: decision_function_def split: if_splits sum.splits dest: check_array_Inr)
  with assms(2) show ?thesis by simp
qed

lemma get_decision_scores_Inr_label:
  assumes "get_decision_scores L s X = (Inr scores, s')"
  shows "training_pseudo_label' s' \<noteq> None"
proof -
  from assms have f: "fst (get_decision_scores L s X) = Inr scores"
    and s': "s' = snd (get_decision_scores L s X)" by simp_all
  from f show ?thesis unfolding s' get_decision_scores_eq
    by (auto simp: Let_def split: sum.splits option.splits if_splits)
qed

text \<open>
  The shapes after \<open>fit\<close>: the train score matrix has a row for every training row and a
  column for every detector, and the stored feature count is that of the training matrix.
\<close>

lemma fit_shapes:
  assumes "fit L s X = (Inr (), s')"
  shows "X_train_norm' s' = Some X \<and> n_features' s' = Some (shape1 X) \<and>
         (\<exists>trs. train_scores' s' = Some trs \<and> length trs = length X \<and>
                (\<forall>row \<in> set trs. length row = length (estimator_list s'))) \<and>
         is_fitted s'"
proof -
  from assms obtain Y where "check_array X = Inr Y" by (cases "check_array X") (auto simp: fit_def)
  then have ca: "check_array X = Inr X" by (simp add: check_array_Inr)
  let ?trs = "map (\<lambda>i. map (\<lambda>e. det_decision_scores e X i) (estimator_list s)) [0..<length X]"
  let ?s1 = "s\<lparr>n_features' := Some (shape1 X), X_train_norm' := Some X, train_scores' := Some ?trs\<rparr>"
  from assms ca obtain sc s2 where g: "get_decision_scores L ?s1 X = (Inr sc, s2)"
    and s': "s' = s2\<lparr>decision_scores' := Some sc\<rparr>"
    by (auto simp: fit_def Let_def split: sum.splits prod.splits)
  from get_decision_scores_frame(1) [OF g]
  have f: "X_train_norm' s2 = Some X" "n_features' s2 = Some (shape1 X)"
    "train_scores' s2 = Some ?trs" "estimator_list s2 = estimator_list s"
    by (auto simp: same_configuration_def)
  from check_array_Inr [OF ca] have "X \<noteq> []" by simp
  from get_decision_scores_Inr_label [OF g] have l: "training_pseudo_label' s2 \<noteq> None" .
  from f l s' show ?thesis by (auto simp: is_fitted_def)
qed

subsection \<open>A batch with a degenerate region\<close>

lemma standardized_rows_nonempty:
  assumes "[] \<notin> set trs"
  shows "[] \<notin> set (map (standardize_row trs) trs)"
proof
  assume "[] \<in> set (map (standardize_row trs) trs)"
  then obtain row where row: "row \<in> set trs" and e: "standardize_row trs row = []" by auto
  from row obtain r rs where trs: "trs = r # rs" by (cases trs) auto
  with assms have "r \<noteq> []" by auto
  with trs have "0 < shape1 trs" by (simp add: shape1_def)
  with e show False by (simp add: standardize_row_def)
qed

text \<open>After \<open>fit\<close> on a constructed object, no row of the train score matrix is empty.\<close>

lemma fit_rows_nonempty:
  assumes "fit L s X = (Inr (), s')" and "constructed s"
  shows "\<exists>trs. train_scores' s' = Some trs \<and> [] \<notin> set trs"
proof -
  from fit_shapes [OF assms(1)] obtain trs where
    trs: "train_scores' s' = Some trs" "\<forall>row \<in> set trs. length row = length (estimator_list s')"
    by blast
  from fit_constructed [OF assms] have "1 < length (estimator_list s')"
    by (simp add: constructed_def)
  with trs(2) have "[] \<notin> set trs" by auto
  with trs(1) show ?thesis by blast
qed

text \<open>
  The scoring call on a batch in which the region of some point has fewer than two
  training points raises, and what it raises is the error of \<open>pearsonr\<close> on the short
  sample, where \<open>pearsonr\<close> raises, or an error of the histogram.
\<close>

lemma get_decision_scores_degenerate:
  assumes glr: "get_local_region (region_size_warning s) X = (Inr regions, s1)"
    and xtr: "X_train_norm' s = Some Xtr" and trs: "train_scores' s = Some trs"
    and ne: "[] \<notin> set trs" and pos: "0 < n_clf s"
    and deg: "\<exists>region \<in> set regions. length region < 2"
  shows "\<exists>v. fst (get_decision_scores L s X) = Inl (ValueError v) \<and>
           (v = CorrelationUndefined \<and> short_sample_raises L \<or> v = RangeNotFinite \<or>
            v = BinsNotPositive \<or> v = TooManyBins)"
proof -
  let ?tn = "map (standardize_row trs) trs"
  let ?pl = "map (\<lambda>row. Max (set row)) ?tn"
  let ?s2 = "s1\<lparr>training_pseudo_label' := Some ?pl\<rparr>"
  let ?tsn = "map (standardize_row trs)
                (map (\<lambda>row. map (\<lambda>e. det_decision_function e Xtr row) (estimator_list s)) X)"
  let ?pts = "zip ?tsn regions"
  note g = get_decision_scores_regions [OF glr xtr trs standardized_rows_nonempty [OF ne], of L]
  from get_local_region_Inr [OF glr] obtain votes r where
    vr: "vote_iterations (local_region_iterations (region_size_warning s)) (region_size_warning s)
           (random_state (region_size_warning s)) X (replicate (length X) []) = (Inr votes, r)"
    and regions: "regions = map (threshold_votes (local_region_threshold (region_size_warning s))) votes"
    and s1: "s1 = region_size_warning s\<lparr>random_state := r\<rparr>"
    by blast
  from vote_iterations_Inr [OF vr] have "length votes = length X" by simp
  with regions have len: "length regions = length X" by simp
  then have sp: "snd ` set ?pts = set regions"
    by (metis (no_types, lifting) length_map list.set_map map_snd_zip)
  have n2: "0 < n_clf ?s2" using pos s1 by simp
  show ?thesis
  proof (cases "fst (score_points L ?s2 ?pl ?tn ?pts)")
    case (Inl e)
    from score_points_Inl [OF Inl] Inl show ?thesis unfolding g by auto
  next
    case (Inr pred)
    from score_points_Inr [OF Inr n2] have "\<forall>p \<in> set ?pts. 2 \<le> length (snd p)" by simp
    with sp have "\<forall>region \<in> set regions. 2 \<le> length region" by force
    with deg show ?thesis by force
  qed
qed

text \<open>
  The same when the point with the short region is the first of the batch: the error of
  \<open>pearsonr\<close> comes before the selector is called and the bin count is as it was; a NaN
  in place of the error reaches the histogram after the clamp.
\<close>

lemma get_decision_scores_degenerate_first:
  assumes glr: "get_local_region (region_size_warning s) X = (Inr regions, s1)"
    and xtr: "X_train_norm' s = Some Xtr" and trs: "train_scores' s = Some trs"
    and ne: "[] \<notin> set trs" and pos: "0 < n_clf s" and x: "X \<noteq> []"
    and deg: "length (hd regions) < 2"
  shows "get_decision_scores L s X =
           (if short_sample_raises L
            then (Inl (ValueError CorrelationUndefined),
                  s1\<lparr>training_pseudo_label' :=
                       Some (map (\<lambda>row. Max (set row)) (map (standardize_row trs) trs))\<rparr>)
            else (Inl (ValueError (if min (n_bins s) (int (n_clf s)) < 1 then BinsNotPositive
                                    else RangeNotFinite)),
                  clamp_n_bins (s1\<lparr>training_pseudo_label' :=
                       Some (map (\<lambda>row. Max (set row)) (map (standardize_row trs) trs))\<rparr>)))"
proof -
  let ?tn = "map (standardize_row trs) trs"
  let ?pl = "map (\<lambda>row. Max (set row)) ?tn"
  let ?s2 = "s1\<lparr>training_pseudo_label' := Some ?pl\<rparr>"
  let ?tsn = "map (standardize_row trs)
                (map (\<lambda>row. map (\<lambda>e. det_decision_function e Xtr row) (estimator_list s)) X)"
  note g = get_decision_scores_regions [OF glr xtr trs standardized_rows_nonempty [OF ne], of L]
  from get_local_region_Inr [OF glr] obtain votes r where
    vr: "vote_iterations (local_region_iterations (region_size_warning s)) (region_size_warning s)
           (random_state (region_size_warning s)) X (replicate (length X) []) = (Inr votes, r)"
    and regions: "regions = map (threshold_votes (local_region_threshold (region_size_warning s))) votes"
    and s1: "s1 = region_size_warning s\<lparr>random_state := r\<rparr>"
    by blast
  from vote_iterations_Inr [OF vr] have "length votes = length X" by simp
  with regions have len: "length regions = length X" by simp
  with x obtain region rest where reg: "regions = region # rest" by (cases regions) auto
  from x obtain row rows where tsn: "?tsn = row # rows" by (cases X) auto
  from deg reg have short: "length region < 2" by simp
  have n2: "0 < n_clf ?s2" using pos s1 by simp
  have nb: "n_bins (clamp_n_bins ?s2) = min (n_bins s) (int (n_clf s))"
    by (simp add: clamp_n_bins_n_bins s1)
  show ?thesis
    unfolding g tsn reg zip_Cons_Cons score_points_short_first [OF short n2] nb ..
qed

text \<open>
  C1, as the code has it. A query point whose local region has fewer than two training
  points makes \<open>decision_function\<close> raise a \<open>ValueError\<close> for the whole batch, and no
  point of the batch is scored. What raises depends on \<open>pearsonr\<close>: where it raises on
  a sample of fewer than two points, the error is its own, unless the histogram has raised
  at an earlier point of the batch; where it gives NaN, the histogram raises on the
  scores that are not finite. When the point is the first of the batch, the error of
  \<open>pearsonr\<close> leaves the bin count as it was, and the error of the histogram comes after
  the clamp of the bin count. When \<open>decision_function\<close> returns, it returns one score
  per query point and no score is NaN.
\<close>

theorem degenerate_region_raises:
  assumes "constructed s" and "library_contract L"
  shows "(\<forall>scores s'. decision_function L s X = (Inr scores, s') \<longrightarrow>
            length scores = length X \<and> NaN \<notin> set scores) \<and>
         (\<forall>regions s1 trs.
            is_fitted s \<and> check_array X = Inr X \<and> n_features' s = Some (shape1 X) \<and>
            train_scores' s = Some trs \<and> [] \<notin> set trs \<and>
            get_local_region (region_size_warning s) X = (Inr regions, s1) \<and>
            (\<exists>region \<in> set regions. length region < 2) \<longrightarrow>
            (\<exists>v. fst (decision_function L s X) = Inl (ValueError v) \<and>
               (v = CorrelationUndefined \<and> short_sample_raises L \<or> v = RangeNotFinite \<or>
                v = BinsNotPositive \<or> v = TooManyBins)) \<and>
            (length (hd regions) < 2 \<longrightarrow>
               (if short_sample_raises L
                then fst (decision_function L s X) = Inl (ValueError CorrelationUndefined) \<and>
                     n_bins (snd (decision_function L s X)) = n_bins s \<and>
                     count_list (warnings (snd (decision_function L s X))) NBinsWarning =
                       count_list (warnings s) NBinsWarning
                else fst (decision_function L s X) =
                       Inl (ValueError (if n_bins s < 1 then BinsNotPositive else RangeNotFinite)) \<and>
                     n_bins (snd (decision_function L s X)) = min (n_bins s) (int (n_clf s)))))"
proof (intro conjI allI impI)
  fix scores s'
  assume d: "decision_function L s X = (Inr scores, s')"
  from decision_function_Inr [OF d] have g: "get_decision_scores L s X = (Inr scores, s')" by simp
  from get_decision_scores_Inr [OF g] constructed_positive [OF assms(1)] assms(2)
  show "length scores = length X" and "NaN \<notin> set scores" by auto
next
  fix regions s1 trs
  assume a: "is_fitted s \<and> check_array X = Inr X \<and> n_features' s = Some (shape1 X) \<and>
            train_scores' s = Some trs \<and> [] \<notin> set trs \<and>
            get_local_region (region_size_warning s) X = (Inr regions, s1) \<and>
            (\<exists>region \<in> set regions. length region < 2)"
  then have d: "decision_function L s X = get_decision_scores L s X"
    by (simp add: decision_function_def)
  from a obtain Xtr where xtr: "X_train_norm' s = Some Xtr" by (auto simp: is_fitted_def)
  from constructed_positive [OF assms(1)] have pos: "0 < n_clf s" by simp
  from a have glr: "get_local_region (region_size_warning s) X = (Inr regions, s1)"
    and trs: "train_scores' s = Some trs" and ne: "[] \<notin> set trs"
    and deg: "\<exists>region \<in> set regions. length region < 2" by simp_all
  from get_decision_scores_degenerate [OF glr xtr trs ne pos deg]
  show "\<exists>v. fst (decision_function L s X) = Inl (ValueError v) \<and>
               (v = CorrelationUndefined \<and> short_sample_raises L \<or> v = RangeNotFinite \<or>
                v = BinsNotPositive \<or> v = TooManyBins)"
    unfolding d .
  assume first: "length (hd regions) < 2"
  from a have x: "X \<noteq> []" by (auto dest: check_array_Inr)
  from get_local_region_Inr [OF glr] obtain r where
    s1: "s1 = region_size_warning s\<lparr>random_state := r\<rparr>" by auto
  from assms(1) have "1 < n_clf s" by (simp add: constructed_def)
  then have m: "min (n_bins s) (int (n_clf s)) < 1 \<longleftrightarrow> n_bins s < 1" by auto
  note gd = get_decision_scores_degenerate_first [OF glr xtr trs ne pos x first, of L]
  show "if short_sample_raises L
        then fst (decision_function L s X) = Inl (ValueError CorrelationUndefined) \<and>
             n_bins (snd (decision_function L s X)) = n_bins s \<and>
             count_list (warnings (snd (decision_function L s X))) NBinsWarning =
               count_list (warnings s) NBinsWarning
        else fst (decision_function L s X) =
               Inl (ValueError (if n_bins s < 1 then BinsNotPositive else RangeNotFinite)) \<and>
             n_bins (snd (decision_function L s X)) = min (n_bins s) (int (n_clf s))"
    unfolding d gd by (simp add: s1 m clamp_n_bins_n_bins)
qed

section \<open>The small ensemble, fitted and queried\<close>

lemma ex_model_record:
  "ex_model = \<lparr> estimator_list = [det_A, det_B], n_clf = 2, local_region_size = 2,
      local_region_min = 30, local_region_max = 200, local_max_features = 1,
      local_min_features = 1 / 2, local_region_iterations = 20, local_region_threshold = 10,
      n_bins = 10, n_selected = 1, random_state = \<lparr>tape = ex_tape, pos = 0\<rparr>,
      n_features' = None, X_train_norm' = None, train_scores' = None,
      training_pseudo_label' = None, decision_scores' = None, warnings = [] \<rparr>"
  by (simp add: ex_model_def LSCP_init_def python_int_def)

lemma sqrt_4: "sqrt 4 = 2"
  using real_sqrt_abs [of 2] by simp

lemma ex_standardize_train:
  "map (standardize_row [[1, 2], [- 1, - 2], [1, 2], [- 1, - 2]]) [[1, 2], [- 1, - 2], [1, 2], [- 1, - 2]]
     = [[1, 1], [- 1, - 1], [1, 1], [- 1, - 1]]"
  by (simp add: standardize_row_def shape1_def column_def mean_def stddev_def sqrt_4 upt_conv_Cons)

lemma ex_standardize_row:
  "standardize_row [[1, 2], [- 1, - 2], [1, 2], [- 1, - 2]] [a, b] = [a, b / 2]"
  by (simp add: standardize_row_def shape1_def column_def mean_def stddev_def sqrt_4 upt_conv_Cons)

lemma ex_correlations:
  assumes "n_clf s = 2" and "region \<in> {[0, 1], [1, 0], [2, 3], [3, 2]}"
  shows "local_correlations L s [1, - 1, 1, - 1] [[1, 1], [- 1, - 1], [1, 1], [- 1, - 1]] region
           = Inr [Finite 1, Finite 1]"
  using assms
  by (auto simp: local_correlations_def column_def pearsonr_def mean_def sqrt_4 Let_def
      upt_conv_Cons)

lemma ex_correlations_empty:
  assumes "n_clf s = 2"
  shows "local_correlations L s pl tn [] =
           (if short_sample_raises L then Inl (ValueError CorrelationUndefined) else Inr [NaN, NaN])"
  using local_correlations_short [of "[]" s L pl tn] assms by (simp add: numeral_2_eq_2)

lemma ex_select:
  assumes "n_selected s = 1" and "n_bins (clamp_n_bins s) = 2"
  shows "fst (get_competent_detectors (reference_library r) s [Finite 1, Finite 1]) = Inr [0, 1]"
  using assms
  by (simp add: get_competent_detectors_def histogram_def exact_bin_edges_def histogram_range_def
      bin_edges_of_def in_half_open_bin_def argmaxn_def np_where_def Let_def upt_conv_Cons)

lemma ex_select_NaN:
  assumes "n_bins (clamp_n_bins s) = 2"
  shows "fst (get_competent_detectors L s [NaN, NaN]) = Inl (ValueError RangeNotFinite)"
  using assms by (simp add: get_competent_detectors_def histogram_def Let_def)

lemma ex_prefit_fields [simp]:
  "estimator_list ex_prefit = [det_A, det_B]" "n_clf ex_prefit = 2" "n_bins ex_prefit = 10"
  "n_selected ex_prefit = 1" "local_region_size ex_prefit = 2"
  "local_region_min ex_prefit = 30" "local_region_max ex_prefit = 200"
  "X_train_norm' ex_prefit = Some ex_train"
  "train_scores' ex_prefit = Some [[1, 2], [- 1, - 2], [1, 2], [- 1, - 2]]"
  "random_state ex_prefit = \<lparr>tape = ex_tape, pos = 0\<rparr>"
  by (simp_all add: ex_prefit_def ex_model_record)

lemma ex_fit_regions:
  "fst (get_local_region (region_size_warning ex_prefit) ex_train) = Inr [[0, 1], [1, 0], [2, 3], [3, 2]]"
  by code_simp

lemma ex_fit_pos:
  "pos (random_state (snd (get_local_region (region_size_warning ex_prefit) ex_train))) = 40"
  by code_simp

lemma ex_train_rows_nonempty:
  "[] \<notin> set (map (standardize_row [[1, 2], [- 1, - 2], [1, 2], [- 1, - 2]])
      [[1, 2], [- 1, - 2], [1, 2], [- 1, - 2]])"
  unfolding ex_standardize_train by simp

lemma ex_fit_scores:
  "get_decision_scores (reference_library r) ex_prefit ex_train =
     (Inr [Finite (5 / 2), Finite (13 / 4), Finite 5, Finite (23 / 4)],
      ex_fitted\<lparr>decision_scores' := None\<rparr>)"
proof -
  note glr = get_local_region_pair [OF ex_fit_regions ex_fit_pos]
  show ?thesis
    apply (subst get_decision_scores_regions [OF glr _ _ ex_train_rows_nonempty])
      apply simp
     apply simp
    apply (rule prod_eqI)
     apply (simp add: ex_standardize_train ex_standardize_row ex_train_def det_A_def det_B_def
        score_points_Cons ex_correlations ex_select clamp_n_bins_n_bins np_mean_def
        del: score_points.simps(2))
    apply (subst score_points_snd)
    apply (simp add: ex_standardize_train ex_standardize_row ex_train_def
        det_A_def det_B_def ex_correlations del: score_points.simps(2))
    apply (simp add: ex_fitted_def ex_prefit_def ex_model_record
        clamp_n_bins_def region_size_warning_def warn_def)
    done
qed

lemma ex_fit: "fit (reference_library r) ex_model ex_train = (Inr (), ex_fitted)"
proof -
  have ca: "check_array ex_train = Inr ex_train"
    by (simp add: check_array_def shape1_def ex_train_def)
  have pre: "ex_model\<lparr>n_features' := Some (shape1 ex_train), X_train_norm' := Some ex_train,
      train_scores' := Some (map (\<lambda>i. map (\<lambda>e. det_decision_scores e ex_train i)
          (estimator_list ex_model)) [0..<length ex_train])\<rparr> = ex_prefit"
    by (simp add: ex_prefit_def ex_model_record shape1_def ex_train_def det_A_def det_B_def
        upt_conv_Cons)
  have fin: "ex_fitted\<lparr>decision_scores' := None,
      decision_scores' := Some [Finite (5 / 2), Finite (13 / 4), Finite 5, Finite (23 / 4)]\<rparr> = ex_fitted"
    by (simp add: ex_fitted_def)
  show ?thesis
    by (simp add: fit_def ca Let_def pre ex_fit_scores fin)
qed

lemma ex_fitted_fields [simp]:
  "estimator_list ex_fitted = [det_A, det_B]" "n_clf ex_fitted = 2" "n_bins ex_fitted = 2"
  "n_selected ex_fitted = 1" "local_region_size ex_fitted = 2"
  "local_region_min ex_fitted = 30" "local_region_max ex_fitted = 200"
  "n_features' ex_fitted = Some 2"
  "X_train_norm' ex_fitted = Some ex_train"
  "train_scores' ex_fitted = Some [[1, 2], [- 1, - 2], [1, 2], [- 1, - 2]]"
  "random_state ex_fitted = \<lparr>tape = ex_tape, pos = 40\<rparr>"
  by (simp_all add: ex_fitted_def ex_prefit_def ex_model_record)

lemma ex_fitted_constructed: "constructed ex_fitted"
  by (simp add: constructed_def ex_fitted_def ex_prefit_def ex_model_record)

lemma ex_fitted_is_fitted: "is_fitted ex_fitted"
  by (simp add: is_fitted_def ex_fitted_def ex_prefit_def ex_model_record)

lemma ex_query_regions:
  "fst (get_local_region (region_size_warning ex_fitted) [[0, 10], [0, 0]]) = Inr [[0, 1], []]"
  by code_simp

lemma ex_query_pos:
  "pos (random_state (snd (get_local_region (region_size_warning ex_fitted) [[0, 10], [0, 0]]))) = 80"
  by code_simp

lemma ex_single_regions:
  "fst (get_local_region (region_size_warning ex_fitted) [[0, 10]]) = Inr [[0, 1]]"
  by code_simp

lemma ex_single_pos:
  "pos (random_state (snd (get_local_region (region_size_warning ex_fitted) [[0, 10]]))) = 80"
  by code_simp

lemma ex_decision_single:
  "decision_function (reference_library r) ex_fitted [[0, 10]] = (Inr [Finite (5 / 2)], ex_scored)"
proof -
  note glr = get_local_region_pair [OF ex_single_regions ex_single_pos]
  have g: "get_decision_scores (reference_library r) ex_fitted [[0, 10]] =
             (Inr [Finite (5 / 2)], ex_scored)"
    apply (subst get_decision_scores_regions [OF glr _ _ ex_train_rows_nonempty])
      apply simp
     apply simp
    apply (rule prod_eqI)
     apply (simp add: ex_standardize_train ex_standardize_row det_A_def det_B_def
        score_points_Cons ex_correlations ex_select clamp_n_bins_n_bins np_mean_def
        del: score_points.simps(2))
    apply (subst score_points_snd)
    apply (simp add: ex_standardize_train ex_standardize_row
        det_A_def det_B_def ex_correlations del: score_points.simps(2))
    apply (simp add: ex_scored_def ex_fitted_def ex_prefit_def ex_model_record
        clamp_n_bins_def region_size_warning_def warn_def)
    done
  show ?thesis
    using ex_fitted_is_fitted
    by (simp add: decision_function_def check_array_def shape1_def g)
qed

text \<open>
  A batch in which the region of the second point is empty, for a \<open>pearsonr\<close> that raises
  and for one that gives NaN.
\<close>

lemma ex_decision_batch:
  "fst (decision_function (reference_library r) ex_fitted [[0, 10], [0, 0]]) =
     Inl (ValueError (if r then CorrelationUndefined else RangeNotFinite))"
proof -
  note glr = get_local_region_pair [OF ex_query_regions ex_query_pos]
  have g: "fst (get_decision_scores (reference_library r) ex_fitted [[0, 10], [0, 0]]) =
             Inl (ValueError (if r then CorrelationUndefined else RangeNotFinite))"
    apply (subst get_decision_scores_regions [OF glr _ _ ex_train_rows_nonempty])
      apply simp
     apply simp
    apply (simp add: ex_standardize_train ex_standardize_row det_A_def det_B_def
        score_points_Cons ex_correlations ex_correlations_empty ex_select ex_select_NaN
        clamp_n_bins_n_bins np_mean_def
        del: score_points.simps(2))
    done
  show ?thesis
    using ex_fitted_is_fitted
    by (simp add: decision_function_def check_array_def shape1_def g)
qed

lemma ex_subspace_before:
  "fst (sample_subspace ex_fitted ex_train (random_state ex_fitted)) = Inr [1]"
  by code_simp

lemma ex_subspace_after:
  "fst (sample_subspace ex_scored ex_train (random_state ex_scored)) = Inr [0]"
  by code_simp

text \<open>
  The fitted object with the bin count set back to 10, and a batch in which the region of
  the first point is empty.
\<close>

lemma ex_first_regions:
  "fst (get_local_region (region_size_warning (ex_fitted\<lparr>n_bins := 10\<rparr>)) [[0, 0], [0, 10]]) =
     Inr [[], [0, 1]]"
  by code_simp

lemma ex_first_pos:
  "pos (random_state (snd (get_local_region (region_size_warning (ex_fitted\<lparr>n_bins := 10\<rparr>))
     [[0, 0], [0, 10]]))) = 80"
  by code_simp

section \<open>The claims at the small ensemble\<close>

theorem degenerate_region_raises_witness:
  "constructed ex_fitted \<and> constructed (ex_fitted\<lparr>n_bins := 10\<rparr>) \<and>
   library_contract (reference_library True) \<and> library_contract (reference_library False) \<and>
   decision_function (reference_library True) ex_fitted [[0, 10]] =
     (Inr [Finite (5 / 2)], ex_scored) \<and>
   length [Finite (5 / 2)] = length [[0, 10 :: real]] \<and>
   NaN \<notin> set [Finite (5 / 2)] \<and>
   is_fitted (ex_fitted\<lparr>n_bins := 10\<rparr>) \<and>
   check_array [[0, 0], [0, 10]] = Inr [[0, 0], [0, 10]] \<and>
   n_features' (ex_fitted\<lparr>n_bins := 10\<rparr>) = Some (shape1 [[0, 0], [0, 10]]) \<and>
   train_scores' (ex_fitted\<lparr>n_bins := 10\<rparr>) = Some [[1, 2], [- 1, - 2], [1, 2], [- 1, - 2]] \<and>
   [] \<notin> set [[1, 2], [- 1, - 2], [1, 2], [- 1, - 2 :: real]] \<and>
   fst (get_local_region (region_size_warning (ex_fitted\<lparr>n_bins := 10\<rparr>)) [[0, 0], [0, 10]]) =
     Inr [[], [0, 1]] \<and>
   length (hd [[], [0, 1 :: nat]]) < 2 \<and>
   short_sample_raises (reference_library True) \<and>
   fst (decision_function (reference_library True) (ex_fitted\<lparr>n_bins := 10\<rparr>) [[0, 0], [0, 10]]) =
     Inl (ValueError CorrelationUndefined) \<and>
   n_bins (snd (decision_function (reference_library True) (ex_fitted\<lparr>n_bins := 10\<rparr>)
                  [[0, 0], [0, 10]])) = 10 \<and>
   \<not> short_sample_raises (reference_library False) \<and>
   fst (decision_function (reference_library False) (ex_fitted\<lparr>n_bins := 10\<rparr>) [[0, 0], [0, 10]]) =
     Inl (ValueError RangeNotFinite) \<and>
   n_bins (snd (decision_function (reference_library False) (ex_fitted\<lparr>n_bins := 10\<rparr>)
                  [[0, 0], [0, 10]])) = 2"
proof -
  let ?s = "ex_fitted\<lparr>n_bins := 10\<rparr>"
  let ?X = "[[0, 0], [0, 10 :: real]]"
  have con: "constructed ?s" using ex_fitted_constructed by (simp add: constructed_def)
  note cT = reference_library_contract [of True]
  note cF = reference_library_contract [of False]
  from degenerate_region_raises [OF ex_fitted_constructed cT, of "[[0, 10]]"]
    ex_decision_single [of True]
  have a: "length [Finite (5 / 2)] = length [[0, 10 :: real]] \<and> NaN \<notin> set [Finite (5 / 2)]"
    by blast
  note glr = get_local_region_pair [OF ex_first_regions ex_first_pos]
  have fit: "is_fitted ?s" using ex_fitted_is_fitted by (simp add: is_fitted_def)
  have ca: "check_array ?X = Inr ?X" by (simp add: check_array_def shape1_def)
  have nf: "n_features' ?s = Some (shape1 ?X)" by (simp add: shape1_def)
  have trs: "train_scores' ?s = Some [[1, 2], [- 1, - 2], [1, 2], [- 1, - 2]]" by simp
  have ne: "[] \<notin> set [[1, 2], [- 1, - 2], [1, 2], [- 1, - 2 :: real]]" by simp
  have deg: "\<exists>region \<in> set [[], [0, 1 :: nat]]. length region < 2" by simp
  have first: "length (hd [[], [0, 1 :: nat]]) < 2" by simp
  from degenerate_region_raises [OF con cT, of ?X] fit ca nf trs ne glr deg first
  have t: "if short_sample_raises (reference_library True)
        then fst (decision_function (reference_library True) ?s ?X) =
               Inl (ValueError CorrelationUndefined) \<and>
             n_bins (snd (decision_function (reference_library True) ?s ?X)) = n_bins ?s \<and>
             count_list (warnings (snd (decision_function (reference_library True) ?s ?X))) NBinsWarning =
               count_list (warnings ?s) NBinsWarning
        else fst (decision_function (reference_library True) ?s ?X) =
               Inl (ValueError (if n_bins ?s < 1 then BinsNotPositive else RangeNotFinite)) \<and>
             n_bins (snd (decision_function (reference_library True) ?s ?X)) =
               min (n_bins ?s) (int (n_clf ?s))"
    by blast
  from degenerate_region_raises [OF con cF, of ?X] fit ca nf trs ne glr deg first
  have f: "if short_sample_raises (reference_library False)
        then fst (decision_function (reference_library False) ?s ?X) =
               Inl (ValueError CorrelationUndefined) \<and>
             n_bins (snd (decision_function (reference_library False) ?s ?X)) = n_bins ?s \<and>
             count_list (warnings (snd (decision_function (reference_library False) ?s ?X))) NBinsWarning =
               count_list (warnings ?s) NBinsWarning
        else fst (decision_function (reference_library False) ?s ?X) =
               Inl (ValueError (if n_bins ?s < 1 then BinsNotPositive else RangeNotFinite)) \<and>
             n_bins (snd (decision_function (reference_library False) ?s ?X)) =
               min (n_bins ?s) (int (n_clf ?s))"
    by blast
  from t have t': "fst (decision_function (reference_library True) ?s ?X) =
               Inl (ValueError CorrelationUndefined) \<and>
             n_bins (snd (decision_function (reference_library True) ?s ?X)) = 10"
    by simp
  from f have f': "fst (decision_function (reference_library False) ?s ?X) =
               Inl (ValueError RangeNotFinite) \<and>
             n_bins (snd (decision_function (reference_library False) ?s ?X)) = 2"
    by simp
  have pol: "short_sample_raises (reference_library True)"
    "\<not> short_sample_raises (reference_library False)" by simp_all
  from ex_fitted_constructed con cT cF ex_decision_single [of True] a fit ca nf trs ne
    ex_first_regions first pol t' f'
  show ?thesis by (intro conjI) blast+
qed

text \<open>
  The ensemble is fitted; in a batch of two query points the local region of the second
  is empty, and the call raises instead of scoring either point: with the error of
  \<open>pearsonr\<close> where it raises on the empty sample, with the error of the histogram
  where it gives NaN.
\<close>

theorem degenerate_batch_not_scored:
  "fit (reference_library True) ex_model ex_train = (Inr (), ex_fitted) \<and>
   fit (reference_library False) ex_model ex_train = (Inr (), ex_fitted) \<and>
   fst (get_local_region (region_size_warning ex_fitted) [[0, 10], [0, 0]]) = Inr [[0, 1], []] \<and>
   fst (decision_function (reference_library True) ex_fitted [[0, 10], [0, 0]]) =
     Inl (ValueError CorrelationUndefined) \<and>
   fst (decision_function (reference_library False) ex_fitted [[0, 10], [0, 0]]) =
     Inl (ValueError RangeNotFinite)"
  using ex_fit [of True] ex_fit [of False] ex_query_regions
    ex_decision_batch [of True] ex_decision_batch [of False]
  by simp

theorem local_region_is_majority_vote_witness:
  "constructed (region_size_warning ex_fitted) \<and>
   local_region_threshold (region_size_warning ex_fitted) = 10 \<and>
   local_region_iterations (region_size_warning ex_fitted) = 20 \<and>
   get_local_region (region_size_warning ex_fitted) [[0, 10], [0, 0]] =
     (Inr [[0, 1], []],
      region_size_warning ex_fitted\<lparr>random_state :=
        \<lparr>tape = tape (random_state (region_size_warning ex_fitted)), pos = 80\<rparr>\<rparr>) \<and>
   (\<exists>votes.
      fst (vote_iterations (local_region_iterations (region_size_warning ex_fitted))
             (region_size_warning ex_fitted) (random_state (region_size_warning ex_fitted))
             [[0, 10], [0, 0]] (replicate (length [[0, 10], [0, 0 :: real]]) [])) = Inr votes \<and>
      set ([[0, 1], []] ! 1) =
        {i. local_region_threshold (region_size_warning ex_fitted) < count_list (votes ! 1) i} \<and>
      length (votes ! 1) =
        local_region_iterations (region_size_warning ex_fitted) *
          nat (local_region_size (region_size_warning ex_fitted)))"
proof -
  note glr = get_local_region_pair [OF ex_query_regions ex_query_pos]
  have con: "constructed (region_size_warning ex_fitted)"
    using ex_fitted_constructed by (simp add: constructed_def)
  from local_region_is_majority_vote [OF glr] con
  have dflt: "local_region_threshold (region_size_warning ex_fitted) = 10 \<and>
      local_region_iterations (region_size_warning ex_fitted) = 20"
    by blast
  from local_region_is_majority_vote [OF glr] obtain votes where
    v: "fst (vote_iterations (local_region_iterations (region_size_warning ex_fitted))
             (region_size_warning ex_fitted) (random_state (region_size_warning ex_fitted))
             [[0, 10], [0, 0]] (replicate (length [[0, 10], [0, 0 :: real]]) [])) = Inr votes"
    and a: "\<forall>j<length [[0, 10], [0, 0 :: real]].
              set ([[0, 1], []] ! j) =
                {i. local_region_threshold (region_size_warning ex_fitted) < count_list (votes ! j) i} \<and>
              distinct ([[0, 1], [] :: nat list] ! j) \<and>
              set ([[0, 1], []] ! j) \<subseteq> set (votes ! j) \<and>
              length (votes ! j) =
                local_region_iterations (region_size_warning ex_fitted) *
                  nat (local_region_size (region_size_warning ex_fitted)) \<and>
              length ([[0, 1], [] :: nat list] ! j) \<le>
                local_region_iterations (region_size_warning ex_fitted) *
                  nat (local_region_size (region_size_warning ex_fitted))"
    by blast
  have "(1::nat) < length [[0, 10], [0, 0 :: real]]" by simp
  with a have "set ([[0, 1], []] ! 1) =
        {i. local_region_threshold (region_size_warning ex_fitted) < count_list (votes ! 1) i} \<and>
      length (votes ! 1) =
        local_region_iterations (region_size_warning ex_fitted) *
          nat (local_region_size (region_size_warning ex_fitted))"
    by blast
  with glr v con dflt show ?thesis by blast
qed

theorem feature_mismatch_raises_witness:
  "is_fitted ex_fitted \<and> check_array [[0, 10, 5]] = Inr [[0, 10, 5]] \<and>
   n_features' ex_fitted \<noteq> Some (shape1 [[0, 10, 5]]) \<and>
   decision_function (reference_library True) ex_fitted [[0, 10, 5]] =
     (Inl (ValueError (FeatureMismatch (the (n_features' ex_fitted)) (shape1 [[0, 10, 5]]))),
      ex_fitted) \<and>
   check_array [[0, 10]] = Inr [[0, 10]] \<and> n_features' ex_fitted = Some (shape1 [[0, 10]]) \<and>
   (\<forall>a b. fst (decision_function (reference_library True) ex_fitted [[0, 10]]) \<noteq>
      Inl (ValueError (FeatureMismatch a b)))"
proof -
  have c3: "check_array [[0, 10, 5]] = Inr [[0, 10, 5]]"
    by (simp add: check_array_def shape1_def)
  have c2: "check_array [[0, 10]] = Inr [[0, 10]]"
    by (simp add: check_array_def shape1_def)
  have n3: "n_features' ex_fitted \<noteq> Some (shape1 [[0, 10, 5]])" by (simp add: shape1_def)
  have n2: "n_features' ex_fitted = Some (shape1 [[0, 10]])" by (simp add: shape1_def)
  from feature_mismatch_raises [OF ex_fitted_is_fitted c3, of "reference_library True"] n3
  have a: "decision_function (reference_library True) ex_fitted [[0, 10, 5]] =
     (Inl (ValueError (FeatureMismatch (the (n_features' ex_fitted)) (shape1 [[0, 10, 5]]))),
      ex_fitted)" by blast
  from feature_mismatch_raises [OF ex_fitted_is_fitted c2, of "reference_library True"] n2
  have b: "\<forall>a b. fst (decision_function (reference_library True) ex_fitted [[0, 10]]) \<noteq>
      Inl (ValueError (FeatureMismatch a b))"
    by blast
  from ex_fitted_is_fitted c3 c2 n3 n2 a b show ?thesis by blast
qed

theorem decision_function_reproducible_witness:
  "decision_function (reference_library True) ex_fitted [[0, 10]] =
     (Inr [Finite (5 / 2)], ex_scored) \<and>
   fst (decision_function (reference_library True)
          (ex_scored\<lparr>random_state := random_state ex_fitted\<rparr>) [[0, 10]]) =
     Inr [Finite (5 / 2)]"
  using decision_function_reproducible [OF ex_decision_single [of True]] ex_decision_single [of True]
  by blast

theorem n_bins_clamped_once_witness:
  "get_decision_scores (reference_library True) ex_prefit ex_train =
     (Inr [Finite (5 / 2), Finite (13 / 4), Finite 5, Finite (23 / 4)],
      ex_fitted\<lparr>decision_scores' := None\<rparr>) \<and>
   ex_train \<noteq> [] \<and> n_bins ex_prefit = 10 \<and> n_clf ex_prefit = 2 \<and>
   n_bins (ex_fitted\<lparr>decision_scores' := None\<rparr>) = 2 \<and>
   count_list (warnings (ex_fitted\<lparr>decision_scores' := None\<rparr>)) NBinsWarning =
     count_list (warnings ex_prefit) NBinsWarning + 1 \<and>
   n_bins (snd (get_decision_scores (reference_library True)
                  (ex_fitted\<lparr>decision_scores' := None\<rparr>) [[0, 10]])) = 2 \<and>
   count_list (warnings (snd (get_decision_scores (reference_library True)
       (ex_fitted\<lparr>decision_scores' := None\<rparr>) [[0, 10]]))) NBinsWarning =
     count_list (warnings (ex_fitted\<lparr>decision_scores' := None\<rparr>)) NBinsWarning"
proof -
  let ?L = "reference_library True"
  have ne: "ex_train \<noteq> []" by (simp add: ex_train_def)
  from n_bins_clamped_once [OF ex_fit_scores [of True] ne]
  have a: "n_bins (ex_fitted\<lparr>decision_scores' := None\<rparr>) = min (n_bins ex_prefit) (int (n_clf ex_prefit))"
    and b: "count_list (warnings (ex_fitted\<lparr>decision_scores' := None\<rparr>)) NBinsWarning =
      count_list (warnings ex_prefit) NBinsWarning +
        (if int (n_clf ex_prefit) < n_bins ex_prefit then 1 else 0)"
    and c: "\<forall>Y res s2. get_decision_scores ?L (ex_fitted\<lparr>decision_scores' := None\<rparr>) Y = (res, s2) \<longrightarrow>
      n_bins s2 = n_bins (ex_fitted\<lparr>decision_scores' := None\<rparr>) \<and>
      count_list (warnings s2) NBinsWarning =
        count_list (warnings (ex_fitted\<lparr>decision_scores' := None\<rparr>)) NBinsWarning"
    by blast+
  from a have a': "n_bins (ex_fitted\<lparr>decision_scores' := None\<rparr>) = 2" by simp
  from b have b': "count_list (warnings (ex_fitted\<lparr>decision_scores' := None\<rparr>)) NBinsWarning =
      count_list (warnings ex_prefit) NBinsWarning + 1" by simp
  have "get_decision_scores ?L (ex_fitted\<lparr>decision_scores' := None\<rparr>) [[0, 10]] =
      (fst (get_decision_scores ?L (ex_fitted\<lparr>decision_scores' := None\<rparr>) [[0, 10]]),
       snd (get_decision_scores ?L (ex_fitted\<lparr>decision_scores' := None\<rparr>) [[0, 10]]))"
    by simp
  with c have c': "n_bins (snd (get_decision_scores ?L (ex_fitted\<lparr>decision_scores' := None\<rparr>) [[0, 10]])) =
        n_bins (ex_fitted\<lparr>decision_scores' := None\<rparr>) \<and>
      count_list (warnings (snd (get_decision_scores ?L (ex_fitted\<lparr>decision_scores' := None\<rparr>)
          [[0, 10]]))) NBinsWarning =
        count_list (warnings (ex_fitted\<lparr>decision_scores' := None\<rparr>)) NBinsWarning"
    by blast
  from ex_fit_scores [of True] ne a' b' c' show ?thesis by simp
qed

text \<open>
  C10. A call of \<open>decision_function\<close> that returns has advanced the random state of the
  object and has stored the pseudo target anew, while the training matrix, the train score
  matrix and the feature count are as before. The next call samples from the advanced
  random state: at the small ensemble, the first subspace of a call and the first subspace
  of the call after it differ.
\<close>

theorem decision_function_not_read_only:
  "(\<forall>L s X scores s'. constructed s \<and> decision_function L s X = (Inr scores, s') \<longrightarrow>
      pos (random_state s) < pos (random_state s') \<and>
      tape (random_state s') = tape (random_state s) \<and>
      (\<exists>trs. train_scores' s = Some trs \<and>
         training_pseudo_label' s' =
           Some (map (\<lambda>row. Max (set row)) (map (standardize_row trs) trs))) \<and>
      X_train_norm' s' = X_train_norm' s \<and> train_scores' s' = train_scores' s \<and>
      n_features' s' = n_features' s) \<and>
   (\<forall>r. \<exists>s X scores s' Xtr. constructed s \<and>
      decision_function (reference_library r) s X = (Inr scores, s') \<and>
      X_train_norm' s = Some Xtr \<and>
      fst (sample_subspace s Xtr (random_state s)) \<noteq>
      fst (sample_subspace s' Xtr (random_state s')))"
proof (intro conjI allI)
  fix L s X scores s'
  show "constructed s \<and> decision_function L s X = (Inr scores, s') \<longrightarrow>
      pos (random_state s) < pos (random_state s') \<and>
      tape (random_state s') = tape (random_state s) \<and>
      (\<exists>trs. train_scores' s = Some trs \<and>
         training_pseudo_label' s' =
           Some (map (\<lambda>row. Max (set row)) (map (standardize_row trs) trs))) \<and>
      X_train_norm' s' = X_train_norm' s \<and> train_scores' s' = train_scores' s \<and>
      n_features' s' = n_features' s"
    using decision_function_changes [of L s X scores s'] by blast
next
  fix r
  have "fst (sample_subspace ex_fitted ex_train (random_state ex_fitted)) \<noteq>
        fst (sample_subspace ex_scored ex_train (random_state ex_scored))"
    unfolding ex_subspace_before ex_subspace_after by simp
  moreover have "X_train_norm' ex_fitted = Some ex_train" by simp
  ultimately show "\<exists>s X scores s' Xtr. constructed s \<and>
      decision_function (reference_library r) s X = (Inr scores, s') \<and>
      X_train_norm' s = Some Xtr \<and>
      fst (sample_subspace s Xtr (random_state s)) \<noteq>
      fst (sample_subspace s' Xtr (random_state s'))"
    using ex_fitted_constructed ex_decision_single [of r] by blast
qed

theorem decision_function_not_read_only_witness:
  "constructed ex_fitted \<and>
   decision_function (reference_library True) ex_fitted [[0, 10]] =
     (Inr [Finite (5 / 2)], ex_scored) \<and>
   pos (random_state ex_fitted) < pos (random_state ex_scored) \<and>
   tape (random_state ex_scored) = tape (random_state ex_fitted) \<and>
   X_train_norm' ex_scored = X_train_norm' ex_fitted \<and>
   train_scores' ex_scored = train_scores' ex_fitted \<and>
   n_features' ex_scored = n_features' ex_fitted"
proof -
  from decision_function_not_read_only
  have "constructed ex_fitted \<and>
      decision_function (reference_library True) ex_fitted [[0, 10]] =
        (Inr [Finite (5 / 2)], ex_scored) \<longrightarrow>
      pos (random_state ex_fitted) < pos (random_state ex_scored) \<and>
      tape (random_state ex_scored) = tape (random_state ex_fitted) \<and>
      (\<exists>trs. train_scores' ex_fitted = Some trs \<and>
         training_pseudo_label' ex_scored =
           Some (map (\<lambda>row. Max (set row)) (map (standardize_row trs) trs))) \<and>
      X_train_norm' ex_scored = X_train_norm' ex_fitted \<and>
      train_scores' ex_scored = train_scores' ex_fitted \<and>
      n_features' ex_scored = n_features' ex_fitted"
    by blast
  with ex_fitted_constructed ex_decision_single [of True] show ?thesis by blast
qed

end
